theory Spec2Isabelle
  imports Main "HOL-Library.AList"
begin

section \<open>The embedded relational engine (environment of dc\_sqlite3.c)\<close>

text \<open>
  dc\_sqlite3.c wraps an SQLite connection. The engine is not part of the repository; the
  model below gives it the behaviour the wrapper relies on: tables with named columns and
  default values, an INTEGER PRIMARY KEY column that is assigned the largest key plus one,
  statements that are refused when they name a missing table or column, and a log of every
  statement handed to the engine. The engine is deterministic: lock contention, I/O
  errors and memory exhaustion are not modelled. Declared column types other than
  INTEGER PRIMARY KEY, and collations, are carried along but not interpreted. Integer
  keys are unbounded.

  Names of tables and indexes are plain identifiers, compared without regard to ASCII
  case, as the engine compares them: \<open>config\<close> and \<open>CONFIG\<close> name one table. The engine's own
  schema tables (\<open>sqlite_master\<close> and its aliases) are known to \<open>PRAGMA table_info\<close> in
  every database, and no table can be created under a name that begins with \<open>sqlite_\<close>.
  Column names are compared as they are written; tables and indexes do not compete for
  names; views, triggers and virtual tables are not modelled.
\<close>

datatype val = VNull | VInt int | VText string

datatype expr = Lit val | Param nat | Col string

datatype cond = Always | Eq string expr | Or cond cond

datatype coldef = ColDef (cd_name: string) (cd_decl: string) (cd_default: val)

datatype sql =
    PRAGMA_table_info string
  | CREATE_TABLE string "coldef list"
  | CREATE_INDEX string string "string list"
  | INSERT_INTO string "string list" "expr list list"
  | ALTER_TABLE_ADD_COLUMN string coldef
  | DELETE_FROM string cond
  | UPDATE string "(string \<times> expr) list" cond
  | SELECT string string cond
  | BEGIN
  | COMMIT
  | ROLLBACK

type_synonym row = "(string \<times> val) list"

record table =
  tb_cols :: "coldef list"
  tb_rows :: "row list"

record database =
  db_tables :: "(string \<times> table) list"
  db_indexes :: "(string \<times> string \<times> string list) list"

datatype event = EvPrepare sql | EvStep sql "val list"

record sqlite3 =
  cn_db :: database
  cn_readonly :: bool
  cn_snapshot :: "database option"
  cn_log :: "event list"

datatype rc = SQLITE_OK | SQLITE_ROW | SQLITE_DONE | SQLITE_ERROR | SQLITE_MISUSE
  | SQLITE_READONLY | SQLITE_CONSTRAINT | SQLITE_CANTOPEN

type_synonym sqlite3_stmt = sql

definition empty_database :: database where
  "empty_database = \<lparr>db_tables = [], db_indexes = []\<rparr>"

definition tolower :: "char \<Rightarrow> char" where
  "tolower c = (if 65 \<le> (of_char c :: nat) \<and> (of_char c :: nat) \<le> 90
                then char_of (of_char c + 32 :: nat) else c)"

definition name_key :: "string \<Rightarrow> string" where
  "name_key s = map tolower s"

definition find_table :: "database \<Rightarrow> string \<Rightarrow> table option" where
  "find_table db t = map_of (map (\<lambda>(n, tb). (name_key n, tb)) (db_tables db)) (name_key t)"

definition schema_tables :: "string list" where
  "schema_tables = [''sqlite_master'', ''sqlite_temp_master'', ''sqlite_schema'',
                    ''sqlite_temp_schema'']"

definition schema_cols :: "string list" where
  "schema_cols = [''type'', ''name'', ''tbl_name'', ''rootpage'', ''sql'']"

definition reserved_name :: "string \<Rightarrow> bool" where
  "reserved_name t = (take 7 (name_key t) = ''sqlite_'')"

definition col_names :: "table \<Rightarrow> string list" where
  "col_names tb = map cd_name (tb_cols tb)"

definition pk_col :: "table \<Rightarrow> string option" where
  "pk_col tb = (case filter (\<lambda>c. cd_decl c = ''INTEGER PRIMARY KEY'') (tb_cols tb) of
                  [] \<Rightarrow> None | c # _ \<Rightarrow> Some (cd_name c))"

definition cell :: "row \<Rightarrow> string \<Rightarrow> val" where
  "cell r c = (case map_of r c of None \<Rightarrow> VNull | Some v \<Rightarrow> v)"

fun expr_cols :: "expr \<Rightarrow> string list" where
  "expr_cols (Lit v) = []"
| "expr_cols (Param i) = []"
| "expr_cols (Col c) = [c]"

fun cond_cols :: "cond \<Rightarrow> string list" where
  "cond_cols Always = []"
| "cond_cols (Eq c e) = c # expr_cols e"
| "cond_cols (Or a b) = cond_cols a @ cond_cols b"

fun eval_expr :: "val list \<Rightarrow> row \<Rightarrow> expr \<Rightarrow> val" where
  "eval_expr args r (Lit v) = v"
| "eval_expr args r (Param i) = (if i < length args then args ! i else VNull)"
| "eval_expr args r (Col c) = cell r c"

text \<open>A comparison with NULL is never true.\<close>

fun eval_cond :: "val list \<Rightarrow> row \<Rightarrow> cond \<Rightarrow> bool" where
  "eval_cond args r Always = True"
| "eval_cond args r (Eq c e) = (cell r c \<noteq> VNull \<and> cell r c = eval_expr args r e)"
| "eval_cond args r (Or a b) = (eval_cond args r a \<or> eval_cond args r b)"

definition has_cols :: "database \<Rightarrow> string \<Rightarrow> string list \<Rightarrow> bool" where
  "has_cols db t cs = (case find_table db t of None \<Rightarrow> False
                       | Some tb \<Rightarrow> list_all (\<lambda>c. c \<in> set (col_names tb)) cs)"

text \<open>What the engine accepts when a statement is compiled against the current schema.\<close>

fun valid :: "database \<Rightarrow> sql \<Rightarrow> bool" where
  "valid db (PRAGMA_table_info t) = True"
| "valid db (CREATE_TABLE t cols) = (find_table db t = None \<and> \<not> reserved_name t)"
| "valid db (CREATE_INDEX i t cs) =
     (name_key i \<notin> set (map (name_key \<circ> fst) (db_indexes db)) \<and> has_cols db t cs)"
| "valid db (INSERT_INTO t cs rows) =
     (has_cols db t cs \<and> list_all (\<lambda>es. length es = length cs \<and> concat (map expr_cols es) = []) rows)"
| "valid db (ALTER_TABLE_ADD_COLUMN t cd) =
     (case find_table db t of None \<Rightarrow> False | Some tb \<Rightarrow> cd_name cd \<notin> set (col_names tb))"
| "valid db (DELETE_FROM t w) = has_cols db t (cond_cols w)"
| "valid db (UPDATE t sets w) =
     has_cols db t (map fst sets @ concat (map (expr_cols \<circ> snd) sets) @ cond_cols w)"
| "valid db (SELECT c t w) = has_cols db t (c # cond_cols w)"
| "valid db BEGIN = True"
| "valid db COMMIT = True"
| "valid db ROLLBACK = True"

fun writes :: "sql \<Rightarrow> bool" where
  "writes (PRAGMA_table_info t) = False"
| "writes (SELECT c t w) = False"
| "writes BEGIN = False"
| "writes COMMIT = False"
| "writes ROLLBACK = False"
| "writes q = True"

text \<open>Replacing the contents of the table that a name denotes.\<close>

definition put_table :: "string \<Rightarrow> table \<Rightarrow> database \<Rightarrow> database" where
  "put_table t tb db =
     db\<lparr>db_tables := map (\<lambda>(n, x). (n, if name_key n = name_key t then tb else x))
                           (db_tables db)\<rparr>"

definition row_ids :: "string option \<Rightarrow> row list \<Rightarrow> int list" where
  "row_ids pk rows = (case pk of None \<Rightarrow> []
     | Some k \<Rightarrow> concat (map (\<lambda>r. case cell r k of VInt i \<Rightarrow> [i] | _ \<Rightarrow> []) rows))"

definition next_rowid :: "string option \<Rightarrow> row list \<Rightarrow> int" where
  "next_rowid pk rows = fold max (row_ids pk rows) 0 + 1"

text \<open>
  One VALUES tuple becomes a row: every column takes the supplied value or its default;
  an absent or NULL primary key is assigned; a duplicate primary key is refused.
\<close>

definition make_row :: "table \<Rightarrow> string list \<Rightarrow> val list \<Rightarrow> row option" where
  "make_row tb cs vs =
     (let given = zip cs vs;
          r = map (\<lambda>cd. (cd_name cd, case map_of given (cd_name cd) of
                                         None \<Rightarrow> cd_default cd | Some v \<Rightarrow> v)) (tb_cols tb)
      in case pk_col tb of
           None \<Rightarrow> Some r
         | Some k \<Rightarrow>
             (case cell r k of
                VNull \<Rightarrow> Some (AList.update k (VInt (next_rowid (Some k) (tb_rows tb))) r)
              | v \<Rightarrow> if v \<in> set (map (\<lambda>r'. cell r' k) (tb_rows tb)) then None else Some r))"

fun insert_rows :: "table \<Rightarrow> string list \<Rightarrow> val list list \<Rightarrow> table option" where
  "insert_rows tb cs [] = Some tb"
| "insert_rows tb cs (vs # rest) =
     (case make_row tb cs vs of
        None \<Rightarrow> None
      | Some r \<Rightarrow> insert_rows (tb\<lparr>tb_rows := tb_rows tb @ [r]\<rparr>) cs rest)"

definition update_row :: "val list \<Rightarrow> (string \<times> expr) list \<Rightarrow> row \<Rightarrow> row" where
  "update_row args sets r = fold (\<lambda>(c, e) acc. AList.update c (eval_expr args r e) acc) sets r"

text \<open>
  Running a compiled statement: the return code, the values of the selected column
  (for SELECT; one marker per column for PRAGMA table\_info), and the new database.
\<close>

fun run :: "val list \<Rightarrow> sql \<Rightarrow> database \<Rightarrow> rc \<times> val list \<times> database" where
  "run args (PRAGMA_table_info t) db =
     (if name_key t \<in> set schema_tables then (SQLITE_ROW, map VText schema_cols, db)
      else
        (case find_table db t of
           None \<Rightarrow> (SQLITE_DONE, [], db)
         | Some tb \<Rightarrow> (if tb_cols tb = [] then (SQLITE_DONE, [], db)
                      else (SQLITE_ROW, map (\<lambda>cd. VText (cd_name cd)) (tb_cols tb), db))))"
| "run args (CREATE_TABLE t cols) db =
     (SQLITE_DONE, [], db\<lparr>db_tables := db_tables db @ [(t, \<lparr>tb_cols = cols, tb_rows = []\<rparr>)]\<rparr>)"
| "run args (CREATE_INDEX i t cs) db =
     (SQLITE_DONE, [], db\<lparr>db_indexes := db_indexes db @ [(i, t, cs)]\<rparr>)"
| "run args (INSERT_INTO t cs rows) db =
     (case find_table db t of
        None \<Rightarrow> (SQLITE_ERROR, [], db)
      | Some tb \<Rightarrow>
          (case insert_rows tb cs (map (map (eval_expr args [])) rows) of
             None \<Rightarrow> (SQLITE_CONSTRAINT, [], db)
           | Some tb' \<Rightarrow> (SQLITE_DONE, [], put_table t tb' db)))"
| "run args (ALTER_TABLE_ADD_COLUMN t cd) db =
     (case find_table db t of
        None \<Rightarrow> (SQLITE_ERROR, [], db)
      | Some tb \<Rightarrow>
          (SQLITE_DONE, [],
           put_table t \<lparr>tb_cols = tb_cols tb @ [cd],
                        tb_rows = map (\<lambda>r. r @ [(cd_name cd, cd_default cd)]) (tb_rows tb)\<rparr> db))"
| "run args (DELETE_FROM t w) db =
     (case find_table db t of
        None \<Rightarrow> (SQLITE_ERROR, [], db)
      | Some tb \<Rightarrow>
          (SQLITE_DONE, [],
           put_table t (tb\<lparr>tb_rows := filter (\<lambda>r. \<not> eval_cond args r w) (tb_rows tb)\<rparr>) db))"
| "run args (UPDATE t sets w) db =
     (case find_table db t of
        None \<Rightarrow> (SQLITE_ERROR, [], db)
      | Some tb \<Rightarrow>
          (SQLITE_DONE, [],
           put_table t (tb\<lparr>tb_rows := map (\<lambda>r. if eval_cond args r w then update_row args sets r
                                                else r) (tb_rows tb)\<rparr>) db))"
| "run args (SELECT c t w) db =
     (case find_table db t of
        None \<Rightarrow> (SQLITE_ERROR, [], db)
      | Some tb \<Rightarrow>
          (let res = map (\<lambda>r. cell r c) (filter (\<lambda>r. eval_cond args r w) (tb_rows tb))
           in (if res = [] then SQLITE_DONE else SQLITE_ROW, res, db)))"
| "run args BEGIN db = (SQLITE_DONE, [], db)"
| "run args COMMIT db = (SQLITE_DONE, [], db)"
| "run args ROLLBACK db = (SQLITE_DONE, [], db)"

text \<open>
  \<open>sqlite3_prepare_v2\<close>: the statement is logged and compiled; a statement the schema
  does not admit yields no handle.
\<close>

definition sqlite3_prepare_v2 :: "sqlite3 \<Rightarrow> sql \<Rightarrow> rc \<times> sqlite3_stmt option \<times> sqlite3" where
  "sqlite3_prepare_v2 c q =
     (let c' = c\<lparr>cn_log := cn_log c @ [EvPrepare q]\<rparr>
      in if valid (cn_db c) q then (SQLITE_OK, Some q, c') else (SQLITE_ERROR, None, c'))"

text \<open>
  \<open>sqlite3_step\<close> with the values bound to the statement's parameters. A null statement
  is a misuse and reaches no connection. A statement the schema no longer admits fails.
  A writing statement fails on a read-only connection. BEGIN opens the one physical
  transaction (remembering the database for ROLLBACK) and fails inside one; COMMIT and
  ROLLBACK fail outside one.
\<close>

definition sqlite3_step :: "sqlite3 \<Rightarrow> sqlite3_stmt \<Rightarrow> val list \<Rightarrow> rc \<times> val list \<times> sqlite3" where
  "sqlite3_step c q args =
     (let c' = c\<lparr>cn_log := cn_log c @ [EvStep q args]\<rparr>
      in if \<not> valid (cn_db c) q then (SQLITE_ERROR, [], c')
         else if writes q \<and> cn_readonly c then (SQLITE_READONLY, [], c')
         else if q = BEGIN then
           (case cn_snapshot c of
              Some d \<Rightarrow> (SQLITE_ERROR, [], c')
            | None \<Rightarrow> (SQLITE_DONE, [], c'\<lparr>cn_snapshot := Some (cn_db c)\<rparr>))
         else if q = COMMIT then
           (case cn_snapshot c of
              None \<Rightarrow> (SQLITE_ERROR, [], c')
            | Some d \<Rightarrow> (SQLITE_DONE, [], c'\<lparr>cn_snapshot := None\<rparr>))
         else if q = ROLLBACK then
           (case cn_snapshot c of
              None \<Rightarrow> (SQLITE_ERROR, [], c')
            | Some d \<Rightarrow> (SQLITE_DONE, [], c'\<lparr>cn_db := d, cn_snapshot := None\<rparr>))
         else (case run args q (cn_db c) of (r, res, db') \<Rightarrow> (r, res, c'\<lparr>cn_db := db'\<rparr>)))"

text \<open>\<open>sqlite3_column_text\<close> on the first result row: NULL gives a null pointer.\<close>

fun nat_dec :: "nat \<Rightarrow> string" where
  "nat_dec n = (if n < 10 then [char_of (48 + n)]
                else nat_dec (n div 10) @ [char_of (48 + n mod 10)])"

declare nat_dec.simps [simp del]

definition int_dec :: "int \<Rightarrow> string" where
  "int_dec v = (if v < 0 then CHR ''-'' # nat_dec (nat (- v)) else nat_dec (nat v))"

definition sqlite3_column_text :: "val list \<Rightarrow> string option" where
  "sqlite3_column_text res =
     (case res of [] \<Rightarrow> None
      | v # _ \<Rightarrow> (case v of VNull \<Rightarrow> None | VText s \<Rightarrow> Some s | VInt i \<Rightarrow> Some (int_dec i)))"


section \<open>C library and string helpers used by the wrapper\<close>

text \<open>
  \<open>atol\<close> is the C library's \<open>strtol(s, NULL, 10)\<close>: optional white space, an optional
  sign, then the longest run of decimal digits; no digits give 0. A \<open>long\<close> has 64 bits.
  C leaves \<open>atol\<close> undefined when the value of the digits does not fit a \<open>long\<close>; the
  library's \<open>strtol\<close> then returns \<open>LONG_MAX\<close> or \<open>LONG_MIN\<close>, and so does the model.
\<close>

definition isspace :: "char \<Rightarrow> bool" where
  "isspace c = (c = CHR '' '' \<or> (9 \<le> (of_char c :: nat) \<and> (of_char c :: nat) \<le> 13))"

definition isdigit :: "char \<Rightarrow> bool" where
  "isdigit c = (48 \<le> (of_char c :: nat) \<and> (of_char c :: nat) \<le> 57)"

fun digits_val :: "int \<Rightarrow> string \<Rightarrow> int" where
  "digits_val acc [] = acc"
| "digits_val acc (c # cs) =
     (if isdigit c then digits_val (acc * 10 + (of_char c - 48)) cs else acc)"

definition LONG_MAX :: int where
  "LONG_MAX = 2 ^ 63 - 1"

definition LONG_MIN :: int where
  "LONG_MIN = - (2 ^ 63)"

definition to_long :: "int \<Rightarrow> int" where
  "to_long x = (if LONG_MAX < x then LONG_MAX else if x < LONG_MIN then LONG_MIN else x)"

definition atol :: "string \<Rightarrow> int" where
  "atol s = to_long (case dropWhile isspace s of
                       [] \<Rightarrow> 0
                     | c # cs \<Rightarrow> if c = CHR ''-'' then - digits_val 0 cs
                                 else if c = CHR ''+'' then digits_val 0 cs
                                 else digits_val 0 (c # cs))"

text \<open>The conversion of a \<open>long\<close> to \<open>int32_t\<close>: the low 32 bits, read as two's complement.\<close>

definition to_int32 :: "int \<Rightarrow> int" where
  "to_int32 x = (x + 2 ^ 31) mod 2 ^ 32 - 2 ^ 31"

text \<open>
  Modelled from the spec: \<open>dc_mprintf\<close>, \<open>strdup_keep_null\<close> and \<open>safe_strdup\<close> live in
  dc\_tools.c, which is not under src/. \<open>dc_mprintf("%i", v)\<close> is the base-10 text of
  \<open>v\<close> (the spec: "string facet serialized in base-10"); \<open>strdup_keep_null\<close> copies a
  string and keeps an absent one absent (the spec: "the default itself may be absent, in
  which case absence propagates"); \<open>safe_strdup\<close> copies a present string. Allocation
  failure is not modelled.
\<close>

definition dc_mprintf_i :: "int \<Rightarrow> string option" where
  "dc_mprintf_i v = Some (int_dec v)"

definition strdup_keep_null :: "string option \<Rightarrow> string option" where
  "strdup_keep_null s = s"

definition safe_strdup :: "string \<Rightarrow> string option" where
  "safe_strdup s = Some s"

section \<open>The store handle\<close>

text \<open>
  \<open>dc_sqlite3_t\<close> is declared in dc\_sqlite3.h, which is not under src/. Its fields are
  taken from their uses in dc\_sqlite3.c: the connection \<open>m_cobj\<close> (absent when closed),
  the cached statements \<open>m_pd\<close>, the counter \<open>m_transactionCount\<close> and the context
  \<open>m_context\<close>, of which only the log sink is used. The counter is an unbounded integer
  (the spec's data model: "non-negative integer"). The slots of \<open>m_pd\<close> are indexed by the
  enumeration constants that dc\_sqlite3.c uses; all of them lie below \<open>PREDEFINED_CNT\<close>,
  so the range check of \<open>dc_sqlite3_predefine\<close> never fires for them. The mutex is not
  modelled: every function below runs with the lock held by one caller. The C names end
  in one or two underscores (\<open>dc_sqlite3_open__\<close>); the definitions drop them.

  A log entry records the format string of the message (without its quotation marks);
  interpolated arguments and the
  engine's own error text are left out.
\<close>

datatype pd_idx = SELECT_v_FROM_config_k | INSERT_INTO_config_kv | UPDATE_config_vk
  | DELETE_FROM_config_k | BEGIN_transaction | ROLLBACK_transaction | COMMIT_transaction

datatype log_entry = LogInfo string | LogError string

record dc_sqlite3_t =
  m_cobj :: "sqlite3 option"
  m_pd :: "pd_idx \<Rightarrow> sqlite3_stmt option"
  m_transactionCount :: int
  m_context :: "log_entry list"

definition dc_log_error :: "dc_sqlite3_t \<Rightarrow> string \<Rightarrow> dc_sqlite3_t" where
  "dc_log_error ths msg = ths\<lparr>m_context := m_context ths @ [LogError msg]\<rparr>"

definition dc_log_info :: "dc_sqlite3_t \<Rightarrow> string \<Rightarrow> dc_sqlite3_t" where
  "dc_log_info ths msg = ths\<lparr>m_context := m_context ths @ [LogInfo msg]\<rparr>"

definition dc_sqlite3_log_error :: "dc_sqlite3_t \<Rightarrow> string \<Rightarrow> dc_sqlite3_t" where
  "dc_sqlite3_log_error ths msg_format = dc_log_error ths msg_format"

text \<open>
  \<open>sqlite3_step(stmt)\<close> as the wrapper calls it: the statement belongs to the handle's
  connection; a null statement is a misuse that reaches no connection.
\<close>

definition step_stmt ::
  "dc_sqlite3_t \<Rightarrow> sqlite3_stmt option \<Rightarrow> val list \<Rightarrow> rc \<times> val list \<times> dc_sqlite3_t" where
  "step_stmt ths stmt args =
     (case stmt of
        None \<Rightarrow> (SQLITE_MISUSE, [], ths)
      | Some q \<Rightarrow>
          (case m_cobj ths of
             None \<Rightarrow> (SQLITE_MISUSE, [], ths)
           | Some c \<Rightarrow> (case sqlite3_step c q args of
                          (r, res, c') \<Rightarrow> (r, res, ths\<lparr>m_cobj := Some c'\<rparr>))))"

definition dc_sqlite3_prepare_v2 ::
  "dc_sqlite3_t \<Rightarrow> sql option \<Rightarrow> sqlite3_stmt option \<times> dc_sqlite3_t" where
  "dc_sqlite3_prepare_v2 ths querystr =
     (case querystr of
        None \<Rightarrow> (None, ths)
      | Some q \<Rightarrow>
          (case m_cobj ths of
             None \<Rightarrow> (None, ths)
           | Some c \<Rightarrow>
               (case sqlite3_prepare_v2 c q of
                  (r, retStmt, c') \<Rightarrow>
                    if r \<noteq> SQLITE_OK
                    then (None, dc_sqlite3_log_error (ths\<lparr>m_cobj := Some c'\<rparr>) ''Query failed: %s'')
                    else (retStmt, ths\<lparr>m_cobj := Some c'\<rparr>))))"

definition dc_sqlite3_execute :: "dc_sqlite3_t \<Rightarrow> sql \<Rightarrow> int \<times> dc_sqlite3_t" where
  "dc_sqlite3_execute ths querystr =
     (case dc_sqlite3_prepare_v2 ths (Some querystr) of
        (None, ths1) \<Rightarrow> (0, ths1)
      | (Some stmt, ths1) \<Rightarrow>
          (case step_stmt ths1 (Some stmt) [] of
             (sqlState, res, ths2) \<Rightarrow>
               if sqlState \<noteq> SQLITE_DONE \<and> sqlState \<noteq> SQLITE_ROW
               then (0, dc_sqlite3_log_error ths2 ''Cannot excecute %s.'')
               else (1, ths2)))"

definition dc_sqlite3_new :: "log_entry list \<Rightarrow> dc_sqlite3_t" where
  "dc_sqlite3_new mailbox =
     \<lparr>m_cobj = None, m_pd = (\<lambda>i. None), m_transactionCount = 0, m_context = mailbox\<rparr>"

text \<open>
  \<open>dc_sqlite3_close\<close>: on an open handle every cached statement is finalized and the
  connection closed; the log line is written in both cases. A null handle is left alone.
\<close>

definition dc_sqlite3_close :: "dc_sqlite3_t option \<Rightarrow> dc_sqlite3_t option" where
  "dc_sqlite3_close ths =
     (case ths of
        None \<Rightarrow> None
      | Some t \<Rightarrow>
          Some (dc_log_info
                  (if m_cobj t \<noteq> None then t\<lparr>m_pd := (\<lambda>i. None), m_cobj := None\<rparr> else t)
                  ''Database closed.''))"

definition dc_sqlite3_is_open :: "dc_sqlite3_t option \<Rightarrow> int" where
  "dc_sqlite3_is_open ths =
     (case ths of None \<Rightarrow> 0 | Some t \<Rightarrow> if m_cobj t = None then 0 else 1)"

definition dc_sqlite3_predefine ::
  "dc_sqlite3_t \<Rightarrow> pd_idx \<Rightarrow> sql option \<Rightarrow> sqlite3_stmt option \<times> dc_sqlite3_t" where
  "dc_sqlite3_predefine ths idx querystr =
     (case m_cobj ths of
        None \<Rightarrow> (None, ths)
      | Some c \<Rightarrow>
          (case m_pd ths idx of
             Some st \<Rightarrow> (Some st, ths)
           | None \<Rightarrow>
               (case querystr of
                  None \<Rightarrow> (None, ths)
                | Some q \<Rightarrow>
                    (case sqlite3_prepare_v2 c q of
                       (r, st, c') \<Rightarrow>
                         if r \<noteq> SQLITE_OK
                         then (None, dc_sqlite3_log_error (ths\<lparr>m_cobj := Some c'\<rparr>)
                                       ''Preparing statement %s failed.'')
                         else (st, ths\<lparr>m_cobj := Some c', m_pd := (m_pd ths)(idx := st)\<rparr>)))))"

definition dc_sqlite3_table_exists :: "dc_sqlite3_t \<Rightarrow> string \<Rightarrow> int \<times> dc_sqlite3_t" where
  "dc_sqlite3_table_exists ths name =
     (case dc_sqlite3_prepare_v2 ths (Some (PRAGMA_table_info name)) of
        (None, ths1) \<Rightarrow> (0, ths1)
      | (Some stmt, ths1) \<Rightarrow>
          (case step_stmt ths1 (Some stmt) [] of
             (sqlState, res, ths2) \<Rightarrow> (if sqlState = SQLITE_ROW then 1 else 0, ths2)))"


section \<open>Handle configuration\<close>

text \<open>
  The four cached statements of the config store. Parameter \<open>?\<close> number \<open>n\<close> of the
  SQL text is \<open>Param (n - 1)\<close>.
  \<^item> \<^verbatim>\<open>SELECT value FROM config WHERE keyname=?;\<close>
  \<^item> \<^verbatim>\<open>INSERT INTO config (keyname, value) VALUES (?, ?);\<close>
  \<^item> \<^verbatim>\<open>UPDATE config SET value=? WHERE keyname=?;\<close>
  \<^item> \<^verbatim>\<open>DELETE FROM config WHERE keyname=?;\<close>
\<close>

definition SELECT_v_FROM_config_k_STATEMENT :: sql where
  "SELECT_v_FROM_config_k_STATEMENT = SELECT ''value'' ''config'' (Eq ''keyname'' (Param 0))"

definition INSERT_INTO_config_kv_STATEMENT :: sql where
  "INSERT_INTO_config_kv_STATEMENT =
     INSERT_INTO ''config'' [''keyname'', ''value''] [[Param 0, Param 1]]"

definition UPDATE_config_vk_STATEMENT :: sql where
  "UPDATE_config_vk_STATEMENT = UPDATE ''config'' [(''value'', Param 0)] (Eq ''keyname'' (Param 1))"

definition DELETE_FROM_config_k_STATEMENT :: sql where
  "DELETE_FROM_config_k_STATEMENT = DELETE_FROM ''config'' (Eq ''keyname'' (Param 0))"

definition set_config_done :: "rc \<Rightarrow> dc_sqlite3_t \<Rightarrow> int \<times> dc_sqlite3_t" where
  "set_config_done state ths =
     (if state \<noteq> SQLITE_DONE
      then (0, dc_log_error ths ''dc_sqlite3_set_config(): Cannot change value.'')
      else (1, ths))"

definition dc_sqlite3_set_config ::
  "dc_sqlite3_t \<Rightarrow> string option \<Rightarrow> string option \<Rightarrow> int \<times> dc_sqlite3_t" where
  "dc_sqlite3_set_config ths key value =
     (case key of
        None \<Rightarrow> (0, dc_log_error ths ''dc_sqlite3_set_config(): Bad parameter.'')
      | Some k \<Rightarrow>
          if dc_sqlite3_is_open (Some ths) = 0
          then (0, dc_log_error ths ''dc_sqlite3_set_config(): Database not ready.'')
          else
            (case value of
               Some v \<Rightarrow>
                 (case dc_sqlite3_predefine ths SELECT_v_FROM_config_k
                         (Some SELECT_v_FROM_config_k_STATEMENT) of
                    (stmt, ths1) \<Rightarrow>
                      (case step_stmt ths1 stmt [VText k] of
                         (state, res, ths2) \<Rightarrow>
                           if state = SQLITE_DONE then
                             (case dc_sqlite3_predefine ths2 INSERT_INTO_config_kv
                                     (Some INSERT_INTO_config_kv_STATEMENT) of
                                (stmt', ths3) \<Rightarrow>
                                  (case step_stmt ths3 stmt' [VText k, VText v] of
                                     (state', res', ths4) \<Rightarrow> set_config_done state' ths4))
                           else if state = SQLITE_ROW then
                             (case dc_sqlite3_predefine ths2 UPDATE_config_vk
                                     (Some UPDATE_config_vk_STATEMENT) of
                                (stmt', ths3) \<Rightarrow>
                                  (case step_stmt ths3 stmt' [VText v, VText k] of
                                     (state', res', ths4) \<Rightarrow> set_config_done state' ths4))
                           else (0, dc_log_error ths2 ''dc_sqlite3_set_config(): Cannot read value.'')))
             | None \<Rightarrow>
                 (case dc_sqlite3_predefine ths DELETE_FROM_config_k
                         (Some DELETE_FROM_config_k_STATEMENT) of
                    (stmt, ths1) \<Rightarrow>
                      (case step_stmt ths1 stmt [VText k] of
                         (state, res, ths2) \<Rightarrow> set_config_done state ths2))))"

definition dc_sqlite3_get_config ::
  "dc_sqlite3_t \<Rightarrow> string option \<Rightarrow> string option \<Rightarrow> string option \<times> dc_sqlite3_t" where
  "dc_sqlite3_get_config ths key def =
     (case key of
        None \<Rightarrow> (strdup_keep_null def, ths)
      | Some k \<Rightarrow>
          if dc_sqlite3_is_open (Some ths) = 0 then (strdup_keep_null def, ths)
          else
            (case dc_sqlite3_predefine ths SELECT_v_FROM_config_k
                    (Some SELECT_v_FROM_config_k_STATEMENT) of
               (stmt, ths1) \<Rightarrow>
                 (case step_stmt ths1 stmt [VText k] of
                    (state, res, ths2) \<Rightarrow>
                      if state = SQLITE_ROW then
                        (case sqlite3_column_text res of
                           Some ptr \<Rightarrow> (safe_strdup ptr, ths2)
                         | None \<Rightarrow> (strdup_keep_null def, ths2))
                      else (strdup_keep_null def, ths2))))"

definition dc_sqlite3_get_config_int ::
  "dc_sqlite3_t \<Rightarrow> string option \<Rightarrow> int \<Rightarrow> int \<times> dc_sqlite3_t" where
  "dc_sqlite3_get_config_int ths key def =
     (case dc_sqlite3_get_config ths key None of
        (None, ths1) \<Rightarrow> (def, ths1)
      | (Some str, ths1) \<Rightarrow> (to_int32 (atol str), ths1))"

definition dc_sqlite3_set_config_int ::
  "dc_sqlite3_t \<Rightarrow> string option \<Rightarrow> int \<Rightarrow> int \<times> dc_sqlite3_t" where
  "dc_sqlite3_set_config_int ths key value =
     (case dc_mprintf_i value of
        None \<Rightarrow> (0, ths)
      | Some value_str \<Rightarrow> dc_sqlite3_set_config ths key (Some value_str))"

section \<open>Transactions\<close>

definition dc_sqlite3_begin_transaction :: "dc_sqlite3_t \<Rightarrow> dc_sqlite3_t" where
  "dc_sqlite3_begin_transaction ths =
     (let ths1 = ths\<lparr>m_transactionCount := m_transactionCount ths + 1\<rparr>
      in if m_transactionCount ths1 = 1 then
           (case dc_sqlite3_predefine ths1 BEGIN_transaction (Some BEGIN) of
              (stmt, ths2) \<Rightarrow>
                (case step_stmt ths2 stmt [] of
                   (r, res, ths3) \<Rightarrow>
                     if r \<noteq> SQLITE_DONE
                     then dc_sqlite3_log_error ths3 ''Cannot begin transaction.''
                     else ths3))
         else ths1)"

definition dc_sqlite3_rollback :: "dc_sqlite3_t \<Rightarrow> dc_sqlite3_t" where
  "dc_sqlite3_rollback ths =
     (if m_transactionCount ths \<ge> 1 then
        (let ths1 =
               (if m_transactionCount ths = 1 then
                  (case dc_sqlite3_predefine ths ROLLBACK_transaction (Some ROLLBACK) of
                     (stmt, ths2) \<Rightarrow>
                       (case step_stmt ths2 stmt [] of
                          (r, res, ths3) \<Rightarrow>
                            if r \<noteq> SQLITE_DONE
                            then dc_sqlite3_log_error ths3 ''Cannot rollback transaction.''
                            else ths3))
                else ths)
         in ths1\<lparr>m_transactionCount := m_transactionCount ths1 - 1\<rparr>)
      else ths)"

definition dc_sqlite3_commit :: "dc_sqlite3_t \<Rightarrow> dc_sqlite3_t" where
  "dc_sqlite3_commit ths =
     (if m_transactionCount ths \<ge> 1 then
        (let ths1 =
               (if m_transactionCount ths = 1 then
                  (case dc_sqlite3_predefine ths COMMIT_transaction (Some COMMIT) of
                     (stmt, ths2) \<Rightarrow>
                       (case step_stmt ths2 stmt [] of
                          (r, res, ths3) \<Rightarrow>
                            if r \<noteq> SQLITE_DONE
                            then dc_sqlite3_log_error ths3 ''Cannot commit transaction.''
                            else ths3))
                else ths)
         in ths1\<lparr>m_transactionCount := m_transactionCount ths1 - 1\<rparr>)
      else ths)"


section \<open>Opening: first-time initialisation and the version ladder\<close>

text \<open>
  The statements of \<open>dc_sqlite3_open__\<close>, in the order of the source. A column without a
  DEFAULT clause has the default NULL; a column without a type has the empty declaration;
  \<open>COLLATE NOCASE\<close> is kept in the declaration of a table column and left out of an index
  column.
\<close>

definition init_stmts :: "sql list" where
  "init_stmts =
    [CREATE_TABLE ''config''
       [ColDef ''id'' ''INTEGER PRIMARY KEY'' VNull,
        ColDef ''keyname'' ''TEXT'' VNull,
        ColDef ''value'' ''TEXT'' VNull],
     CREATE_INDEX ''config_index1'' ''config'' [''keyname''],
     CREATE_TABLE ''contacts''
       [ColDef ''id'' ''INTEGER PRIMARY KEY'' VNull,
        ColDef ''name'' ''TEXT'' (VText []),
        ColDef ''addr'' ''TEXT COLLATE NOCASE'' (VText []),
        ColDef ''origin'' ''INTEGER'' (VInt 0),
        ColDef ''blocked'' ''INTEGER'' (VInt 0),
        ColDef ''last_seen'' ''INTEGER'' (VInt 0),
        ColDef ''param'' ''TEXT'' (VText [])],
     CREATE_INDEX ''contacts_index1'' ''contacts'' [''name''],
     CREATE_INDEX ''contacts_index2'' ''contacts'' [''addr''],
     INSERT_INTO ''contacts'' [''id'', ''name'', ''origin'']
       [[Lit (VInt 1), Lit (VText ''self''), Lit (VInt 262144)],
        [Lit (VInt 2), Lit (VText ''device''), Lit (VInt 262144)],
        [Lit (VInt 3), Lit (VText ''rsvd''), Lit (VInt 262144)],
        [Lit (VInt 4), Lit (VText ''rsvd''), Lit (VInt 262144)],
        [Lit (VInt 5), Lit (VText ''rsvd''), Lit (VInt 262144)],
        [Lit (VInt 6), Lit (VText ''rsvd''), Lit (VInt 262144)],
        [Lit (VInt 7), Lit (VText ''rsvd''), Lit (VInt 262144)],
        [Lit (VInt 8), Lit (VText ''rsvd''), Lit (VInt 262144)],
        [Lit (VInt 9), Lit (VText ''rsvd''), Lit (VInt 262144)]],
     CREATE_TABLE ''chats''
       [ColDef ''id'' ''INTEGER PRIMARY KEY'' VNull,
        ColDef ''type'' ''INTEGER'' (VInt 0),
        ColDef ''name'' ''TEXT'' (VText []),
        ColDef ''draft_timestamp'' ''INTEGER'' (VInt 0),
        ColDef ''draft_txt'' ''TEXT'' (VText []),
        ColDef ''blocked'' ''INTEGER'' (VInt 0),
        ColDef ''grpid'' ''TEXT'' (VText []),
        ColDef ''param'' ''TEXT'' (VText [])],
     CREATE_INDEX ''chats_index1'' ''chats'' [''grpid''],
     CREATE_TABLE ''chats_contacts''
       [ColDef ''chat_id'' ''INTEGER'' VNull,
        ColDef ''contact_id'' ''INTEGER'' VNull],
     CREATE_INDEX ''chats_contacts_index1'' ''chats_contacts'' [''chat_id''],
     INSERT_INTO ''chats'' [''id'', ''type'', ''name'']
       [[Lit (VInt 1), Lit (VInt 120), Lit (VText ''deaddrop'')],
        [Lit (VInt 2), Lit (VInt 120), Lit (VText ''rsvd'')],
        [Lit (VInt 3), Lit (VInt 120), Lit (VText ''trash'')],
        [Lit (VInt 4), Lit (VInt 120), Lit (VText ''msgs_in_creation'')],
        [Lit (VInt 5), Lit (VInt 120), Lit (VText ''starred'')],
        [Lit (VInt 6), Lit (VInt 120), Lit (VText ''archivedlink'')],
        [Lit (VInt 7), Lit (VInt 100), Lit (VText ''rsvd'')],
        [Lit (VInt 8), Lit (VInt 100), Lit (VText ''rsvd'')],
        [Lit (VInt 9), Lit (VInt 100), Lit (VText ''rsvd'')]],
     CREATE_TABLE ''msgs''
       [ColDef ''id'' ''INTEGER PRIMARY KEY'' VNull,
        ColDef ''rfc724_mid'' ''TEXT'' (VText []),
        ColDef ''server_folder'' ''TEXT'' (VText []),
        ColDef ''server_uid'' ''INTEGER'' (VInt 0),
        ColDef ''chat_id'' ''INTEGER'' (VInt 0),
        ColDef ''from_id'' ''INTEGER'' (VInt 0),
        ColDef ''to_id'' ''INTEGER'' (VInt 0),
        ColDef ''timestamp'' ''INTEGER'' (VInt 0),
        ColDef ''type'' ''INTEGER'' (VInt 0),
        ColDef ''state'' ''INTEGER'' (VInt 0),
        ColDef ''msgrmsg'' ''INTEGER'' (VInt 1),
        ColDef ''bytes'' ''INTEGER'' (VInt 0),
        ColDef ''txt'' ''TEXT'' (VText []),
        ColDef ''txt_raw'' ''TEXT'' (VText []),
        ColDef ''param'' ''TEXT'' (VText [])],
     CREATE_INDEX ''msgs_index1'' ''msgs'' [''rfc724_mid''],
     CREATE_INDEX ''msgs_index2'' ''msgs'' [''chat_id''],
     CREATE_INDEX ''msgs_index3'' ''msgs'' [''timestamp''],
     CREATE_INDEX ''msgs_index4'' ''msgs'' [''state''],
     INSERT_INTO ''msgs'' [''id'', ''msgrmsg'', ''txt'']
       [[Lit (VInt 1), Lit (VInt 0), Lit (VText ''marker1'')],
        [Lit (VInt 2), Lit (VInt 0), Lit (VText ''rsvd'')],
        [Lit (VInt 3), Lit (VInt 0), Lit (VText ''rsvd'')],
        [Lit (VInt 4), Lit (VInt 0), Lit (VText ''rsvd'')],
        [Lit (VInt 5), Lit (VInt 0), Lit (VText ''rsvd'')],
        [Lit (VInt 6), Lit (VInt 0), Lit (VText ''rsvd'')],
        [Lit (VInt 7), Lit (VInt 0), Lit (VText ''rsvd'')],
        [Lit (VInt 8), Lit (VInt 0), Lit (VText ''rsvd'')],
        [Lit (VInt 9), Lit (VInt 0), Lit (VText ''daymarker'')]],
     CREATE_TABLE ''jobs''
       [ColDef ''id'' ''INTEGER PRIMARY KEY'' VNull,
        ColDef ''added_timestamp'' ''INTEGER'' VNull,
        ColDef ''desired_timestamp'' ''INTEGER'' (VInt 0),
        ColDef ''action'' ''INTEGER'' VNull,
        ColDef ''foreign_id'' ''INTEGER'' VNull,
        ColDef ''param'' ''TEXT'' (VText [])],
     CREATE_INDEX ''jobs_index1'' ''jobs'' [''desired_timestamp'']]"

definition stmts_1 :: "sql list" where
  "stmts_1 =
    [CREATE_TABLE ''leftgrps''
       [ColDef ''id'' ''INTEGER PRIMARY KEY'' VNull,
        ColDef ''grpid'' ''TEXT'' (VText [])],
     CREATE_INDEX ''leftgrps_index1'' ''leftgrps'' [''grpid'']]"

definition stmts_2 :: "sql list" where
  "stmts_2 = [ALTER_TABLE_ADD_COLUMN ''contacts'' (ColDef ''authname'' ''TEXT'' (VText []))]"

definition stmts_7 :: "sql list" where
  "stmts_7 =
    [CREATE_TABLE ''keypairs''
       [ColDef ''id'' ''INTEGER PRIMARY KEY'' VNull,
        ColDef ''addr'' ''TEXT COLLATE NOCASE'' (VText []),
        ColDef ''is_default'' ''INTEGER'' (VInt 0),
        ColDef ''private_key'' [] VNull,
        ColDef ''public_key'' [] VNull,
        ColDef ''created'' ''INTEGER'' (VInt 0)]]"

definition stmts_10 :: "sql list" where
  "stmts_10 =
    [CREATE_TABLE ''acpeerstates''
       [ColDef ''id'' ''INTEGER PRIMARY KEY'' VNull,
        ColDef ''addr'' ''TEXT COLLATE NOCASE'' (VText []),
        ColDef ''last_seen'' ''INTEGER'' (VInt 0),
        ColDef ''last_seen_autocrypt'' ''INTEGER'' (VInt 0),
        ColDef ''public_key'' [] VNull,
        ColDef ''prefer_encrypted'' ''INTEGER'' (VInt 0)],
     CREATE_INDEX ''acpeerstates_index1'' ''acpeerstates'' [''addr'']]"

definition stmts_12 :: "sql list" where
  "stmts_12 =
    [CREATE_TABLE ''msgs_mdns''
       [ColDef ''msg_id'' ''INTEGER'' VNull,
        ColDef ''contact_id'' ''INTEGER'' VNull],
     CREATE_INDEX ''msgs_mdns_index1'' ''msgs_mdns'' [''msg_id'']]"

definition stmts_17 :: "sql list" where
  "stmts_17 =
    [ALTER_TABLE_ADD_COLUMN ''chats'' (ColDef ''archived'' ''INTEGER'' (VInt 0)),
     CREATE_INDEX ''chats_index2'' ''chats'' [''archived''],
     ALTER_TABLE_ADD_COLUMN ''msgs'' (ColDef ''starred'' ''INTEGER'' (VInt 0)),
     CREATE_INDEX ''msgs_index5'' ''msgs'' [''starred'']]"

definition stmts_18 :: "sql list" where
  "stmts_18 =
    [ALTER_TABLE_ADD_COLUMN ''acpeerstates'' (ColDef ''gossip_timestamp'' ''INTEGER'' (VInt 0)),
     ALTER_TABLE_ADD_COLUMN ''acpeerstates'' (ColDef ''gossip_key'' [] VNull)]"

definition stmts_27 :: "sql list" where
  "stmts_27 =
    [DELETE_FROM ''msgs'' (Or (Eq ''chat_id'' (Lit (VInt 1))) (Eq ''chat_id'' (Lit (VInt 2)))),
     CREATE_INDEX ''chats_contacts_index2'' ''chats_contacts'' [''contact_id''],
     ALTER_TABLE_ADD_COLUMN ''msgs'' (ColDef ''timestamp_sent'' ''INTEGER'' (VInt 0)),
     ALTER_TABLE_ADD_COLUMN ''msgs'' (ColDef ''timestamp_rcvd'' ''INTEGER'' (VInt 0))]"

definition stmts_34 :: "sql list" where
  "stmts_34 =
    [ALTER_TABLE_ADD_COLUMN ''msgs'' (ColDef ''hidden'' ''INTEGER'' (VInt 0)),
     ALTER_TABLE_ADD_COLUMN ''msgs_mdns'' (ColDef ''timestamp_sent'' ''INTEGER'' (VInt 0)),
     ALTER_TABLE_ADD_COLUMN ''acpeerstates'' (ColDef ''public_key_fingerprint'' ''TEXT'' (VText [])),
     ALTER_TABLE_ADD_COLUMN ''acpeerstates'' (ColDef ''gossip_key_fingerprint'' ''TEXT'' (VText [])),
     CREATE_INDEX ''acpeerstates_index3'' ''acpeerstates'' [''public_key_fingerprint''],
     CREATE_INDEX ''acpeerstates_index4'' ''acpeerstates'' [''gossip_key_fingerprint'']]"

definition stmts_39 :: "sql list" where
  "stmts_39 =
    [CREATE_TABLE ''tokens''
       [ColDef ''id'' ''INTEGER PRIMARY KEY'' VNull,
        ColDef ''namespc'' ''INTEGER'' (VInt 0),
        ColDef ''foreign_id'' ''INTEGER'' (VInt 0),
        ColDef ''token'' ''TEXT'' (VText []),
        ColDef ''timestamp'' ''INTEGER'' (VInt 0)],
     ALTER_TABLE_ADD_COLUMN ''acpeerstates'' (ColDef ''verified_key'' [] VNull),
     ALTER_TABLE_ADD_COLUMN ''acpeerstates'' (ColDef ''verified_key_fingerprint'' ''TEXT'' (VText [])),
     CREATE_INDEX ''acpeerstates_index5'' ''acpeerstates'' [''verified_key_fingerprint'']]"

text \<open>The two statements that copy the keys flagged as verified in schema version 34.\<close>

definition copy_gossip_key :: sql where
  "copy_gossip_key =
     UPDATE ''acpeerstates''
       [(''verified_key'', Col ''gossip_key''),
        (''verified_key_fingerprint'', Col ''gossip_key_fingerprint'')]
       (Eq ''gossip_key_verified'' (Lit (VInt 2)))"

definition copy_public_key :: sql where
  "copy_public_key =
     UPDATE ''acpeerstates''
       [(''verified_key'', Col ''public_key''),
        (''verified_key_fingerprint'', Col ''public_key_fingerprint'')]
       (Eq ''public_key_verified'' (Lit (VInt 2)))"

definition stmts_40 :: "sql list" where
  "stmts_40 = [ALTER_TABLE_ADD_COLUMN ''jobs'' (ColDef ''thread'' ''INTEGER'' (VInt 0))]"

text \<open>A run of \<open>dc_sqlite3_execute__\<close> calls whose results the source ignores.\<close>

fun execute_all :: "dc_sqlite3_t \<Rightarrow> sql list \<Rightarrow> dc_sqlite3_t" where
  "execute_all ths [] = ths"
| "execute_all ths (q # qs) = execute_all (snd (dc_sqlite3_execute ths q)) qs"

text \<open>The chain \<open>!table_exists(a) || !table_exists(b) || ...\<close>, which stops at the first missing table.\<close>

fun tables_exist :: "dc_sqlite3_t \<Rightarrow> string list \<Rightarrow> bool \<times> dc_sqlite3_t" where
  "tables_exist ths [] = (True, ths)"
| "tables_exist ths (n # ns) =
     (case dc_sqlite3_table_exists ths n of
        (r, ths1) \<Rightarrow> if r = 0 then (False, ths1) else tables_exist ths1 ns)"

text \<open>The local variables of the read-write branch, with the handle.\<close>

record open_vars =
  hnd :: dc_sqlite3_t
  dbversion_before_update :: int
  dbversion :: int
  recalc_fingerprints :: int

definition execute_in :: "sql list \<Rightarrow> open_vars \<Rightarrow> open_vars" where
  "execute_in qs vs = vs\<lparr>hnd := execute_all (hnd vs) qs\<rparr>"

text \<open>The two lines that end every block: \<open>dbversion = NEW_DB_VERSION\<close> and the config write.\<close>

definition set_dbversion :: "int \<Rightarrow> open_vars \<Rightarrow> open_vars" where
  "set_dbversion NEW_DB_VERSION vs =
     vs\<lparr>dbversion := NEW_DB_VERSION,
        hnd := snd (dc_sqlite3_set_config_int (hnd vs) (Some ''dbversion'') NEW_DB_VERSION)\<rparr>"

definition block_1 :: "open_vars \<Rightarrow> open_vars" where
  "block_1 vs = (if dbversion vs < 1 then set_dbversion 1 (execute_in stmts_1 vs) else vs)"

definition block_2 :: "open_vars \<Rightarrow> open_vars" where
  "block_2 vs = (if dbversion vs < 2 then set_dbversion 2 (execute_in stmts_2 vs) else vs)"

definition block_7 :: "open_vars \<Rightarrow> open_vars" where
  "block_7 vs = (if dbversion vs < 7 then set_dbversion 7 (execute_in stmts_7 vs) else vs)"

definition block_10 :: "open_vars \<Rightarrow> open_vars" where
  "block_10 vs = (if dbversion vs < 10 then set_dbversion 10 (execute_in stmts_10 vs) else vs)"

definition block_12 :: "open_vars \<Rightarrow> open_vars" where
  "block_12 vs = (if dbversion vs < 12 then set_dbversion 12 (execute_in stmts_12 vs) else vs)"

definition block_17 :: "open_vars \<Rightarrow> open_vars" where
  "block_17 vs = (if dbversion vs < 17 then set_dbversion 17 (execute_in stmts_17 vs) else vs)"

definition block_18 :: "open_vars \<Rightarrow> open_vars" where
  "block_18 vs = (if dbversion vs < 18 then set_dbversion 18 (execute_in stmts_18 vs) else vs)"

definition block_27 :: "open_vars \<Rightarrow> open_vars" where
  "block_27 vs = (if dbversion vs < 27 then set_dbversion 27 (execute_in stmts_27 vs) else vs)"

definition block_34 :: "open_vars \<Rightarrow> open_vars" where
  "block_34 vs =
     (if dbversion vs < 34
      then set_dbversion 34 ((execute_in stmts_34 vs)\<lparr>recalc_fingerprints := 1\<rparr>)
      else vs)"

definition block_39 :: "open_vars \<Rightarrow> open_vars" where
  "block_39 vs =
     (if dbversion vs < 39
      then (let vs1 = execute_in stmts_39 vs;
                vs2 = (if dbversion_before_update vs1 = 34
                       then execute_in [copy_gossip_key, copy_public_key] vs1
                       else vs1)
            in set_dbversion 39 vs2)
      else vs)"

definition block_40 :: "open_vars \<Rightarrow> open_vars" where
  "block_40 vs = (if dbversion vs < 40 then set_dbversion 40 (execute_in stmts_40 vs) else vs)"

definition open_ladder :: "open_vars \<Rightarrow> open_vars" where
  "open_ladder vs =
     block_40 (block_39 (block_34 (block_27 (block_18 (block_17 (block_12 (block_10
       (block_7 (block_2 (block_1 vs))))))))))"

text \<open>
  Modelled from the spec: the peer-state object (\<open>dc_apeerstate_new\<close>,
  \<open>dc_apeerstate_load_by_addr__\<close>, \<open>dc_apeerstate_recalc_fingerprint\<close>,
  \<open>dc_apeerstate_save_to_db__\<close>, \<open>dc_apeerstate_unref\<close>) lives in dc\_apeerstate.c, which is
  not under src/. The spec: "iterate every row of acpeerstates, load the peer-state object
  for that address via an external collaborator, recompute its fingerprints from the
  stored key material, and re-save it", without creating rows. The fingerprint of a key
  is the parameter \<open>fp\<close>. The collaborator touches the table acpeerstates only; its own
  statements are not recorded in the engine log.
\<close>

definition recalc_row :: "(val \<Rightarrow> val) \<Rightarrow> row \<Rightarrow> row" where
  "recalc_row fp r =
     AList.update ''gossip_key_fingerprint'' (fp (cell r ''gossip_key''))
       (AList.update ''public_key_fingerprint'' (fp (cell r ''public_key'')) r)"

definition dc_apeerstate_resave :: "(val \<Rightarrow> val) \<Rightarrow> val \<Rightarrow> dc_sqlite3_t \<Rightarrow> dc_sqlite3_t" where
  "dc_apeerstate_resave fp addr ths =
     (case m_cobj ths of
        None \<Rightarrow> ths
      | Some c \<Rightarrow>
          (case find_table (cn_db c) ''acpeerstates'' of
             None \<Rightarrow> ths
           | Some tb \<Rightarrow>
               if addr = VNull \<or> cn_readonly c then ths
               else ths\<lparr>m_cobj := Some (c\<lparr>cn_db :=
                      put_table ''acpeerstates''
                        (tb\<lparr>tb_rows := map (\<lambda>r. if cell r ''addr'' = addr then recalc_row fp r else r)
                                           (tb_rows tb)\<rparr>)
                        (cn_db c)\<rparr>)\<rparr>))"

text \<open>
  The pass after the ladder: \<^verbatim>\<open>SELECT addr FROM acpeerstates;\<close> is stepped row by row
  and every address is handed to the collaborator. The model runs the statement once and
  walks its result.
\<close>

definition recalc_pass :: "(val \<Rightarrow> val) \<Rightarrow> dc_sqlite3_t \<Rightarrow> dc_sqlite3_t" where
  "recalc_pass fp ths =
     (case dc_sqlite3_prepare_v2 ths (Some (SELECT ''addr'' ''acpeerstates'' Always)) of
        (stmt, ths1) \<Rightarrow>
          (case step_stmt ths1 stmt [] of
             (r, res, ths2) \<Rightarrow>
               if r = SQLITE_ROW then fold (dc_apeerstate_resave fp) res ths2 else ths2))"

text \<open>
  The engine's compile-time thread safety and the files it can see. \<open>sqlite3_open_v2\<close>
  with \<open>SQLITE_OPEN_READONLY\<close> needs an existing file; with \<open>SQLITE_OPEN_READWRITE |
  SQLITE_OPEN_CREATE\<close> a missing file becomes an empty database. A connection object is
  handed back even when opening fails. The connection works on its own copy of the
  database; writing back to the file is not modelled. \<open>sqlite3_busy_timeout\<close> has no
  effect in a model without contention.
\<close>

record engine_env =
  env_threadsafe :: bool
  env_files :: "string \<Rightarrow> database option"

definition sqlite3_open_v2 :: "engine_env \<Rightarrow> string \<Rightarrow> bool \<Rightarrow> rc \<times> sqlite3 option" where
  "sqlite3_open_v2 env dbfile readonly =
     (case env_files env dbfile of
        Some db \<Rightarrow>
          (SQLITE_OK, Some \<lparr>cn_db = db, cn_readonly = readonly, cn_snapshot = None, cn_log = []\<rparr>)
      | None \<Rightarrow>
          (if readonly then SQLITE_CANTOPEN else SQLITE_OK,
           Some \<lparr>cn_db = empty_database, cn_readonly = readonly, cn_snapshot = None, cn_log = []\<rparr>))"

text \<open>
  Modelled from the spec: \<open>MR_OPEN_READONLY\<close> is a macro of dc\_sqlite3.h, which is not
  under src/. The spec: "Open flags. A bitfield with the recognized options READONLY";
  the bit is taken to be the lowest one.
\<close>

definition MR_OPEN_READONLY :: int where
  "MR_OPEN_READONLY = 1"

text \<open>The part of the read-write branch before the ladder; \<open>False\<close> is \<open>goto cleanup\<close>.\<close>

definition open_tables :: "dc_sqlite3_t \<Rightarrow> bool \<times> int \<times> dc_sqlite3_t" where
  "open_tables ths =
     (case dc_sqlite3_table_exists ths ''config'' of
        (ex, ths1) \<Rightarrow>
          if ex = 0 then
            (let ths2 = dc_log_info ths1 ''First time init: creating tables in %s.'';
                 ths3 = execute_all ths2 init_stmts
             in case tables_exist ths3 [''config'', ''contacts'', ''chats'', ''chats_contacts'',
                                         ''msgs'', ''jobs''] of
                  (ok, ths4) \<Rightarrow>
                    if \<not> ok
                    then (False, 0, dc_sqlite3_log_error ths4 ''Cannot create tables in new database %s.'')
                    else (True, 0, snd (dc_sqlite3_set_config_int ths4 (Some ''dbversion'') 0)))
          else
            (case dc_sqlite3_get_config_int ths1 (Some ''dbversion'') 0 of
               (v, ths2) \<Rightarrow> (True, v, ths2)))"

definition open_cleanup :: "dc_sqlite3_t option \<Rightarrow> int \<times> dc_sqlite3_t option" where
  "open_cleanup ths = (0, dc_sqlite3_close ths)"

definition dc_sqlite3_open ::
  "(val \<Rightarrow> val) \<Rightarrow> engine_env \<Rightarrow> dc_sqlite3_t option \<Rightarrow> string option \<Rightarrow> int
     \<Rightarrow> int \<times> dc_sqlite3_t option" where
  "dc_sqlite3_open fp env ths dbfile flags =
     (case ths of
        None \<Rightarrow> open_cleanup ths
      | Some t \<Rightarrow>
          (case dbfile of
             None \<Rightarrow> open_cleanup ths
           | Some f \<Rightarrow>
               if \<not> env_threadsafe env then
                 open_cleanup (Some (dc_log_error t
                   ''Sqlite3 compiled thread-unsafe; this is not supported.''))
               else if m_cobj t \<noteq> None then
                 open_cleanup (Some (dc_log_error t ''Cannot open, database %s already opened.''))
               else
                 (case sqlite3_open_v2 env f (and flags MR_OPEN_READONLY \<noteq> 0) of
                    (r, cobj) \<Rightarrow>
                      (let t1 = t\<lparr>m_cobj := cobj\<rparr> in
                       if r \<noteq> SQLITE_OK then
                         open_cleanup (Some (dc_sqlite3_log_error t1 ''Cannot open database %s.''))
                       else if and flags MR_OPEN_READONLY = 0 then
                         (case open_tables t1 of
                            (ok, before, t2) \<Rightarrow>
                              if \<not> ok then open_cleanup (Some t2)
                              else
                                (let vs = open_ladder
                                            \<lparr>hnd = t2, dbversion_before_update = before,
                                             dbversion = before, recalc_fingerprints = 0\<rparr>;
                                     t3 = (if recalc_fingerprints vs \<noteq> 0
                                           then recalc_pass fp (hnd vs) else hnd vs)
                                 in (1, Some (dc_log_info t3 ''Opened %s successfully.''))))
                       else (1, Some (dc_log_info t1 ''Opened %s successfully.''))))))"


section \<open>Notions used in the statements\<close>

text \<open>
  The statement that belongs to each cache slot. The source requires that a slot is never
  used with two different statements; \<open>pd_ok\<close> says that every filled slot holds its own.
\<close>

fun pd_sql :: "pd_idx \<Rightarrow> sql" where
  "pd_sql SELECT_v_FROM_config_k = SELECT_v_FROM_config_k_STATEMENT"
| "pd_sql INSERT_INTO_config_kv = INSERT_INTO_config_kv_STATEMENT"
| "pd_sql UPDATE_config_vk = UPDATE_config_vk_STATEMENT"
| "pd_sql DELETE_FROM_config_k = DELETE_FROM_config_k_STATEMENT"
| "pd_sql BEGIN_transaction = BEGIN"
| "pd_sql ROLLBACK_transaction = ROLLBACK"
| "pd_sql COMMIT_transaction = COMMIT"

definition all_pd_idx :: "pd_idx list" where
  "all_pd_idx = [SELECT_v_FROM_config_k, INSERT_INTO_config_kv, UPDATE_config_vk,
                 DELETE_FROM_config_k, BEGIN_transaction, ROLLBACK_transaction,
                 COMMIT_transaction]"

definition pd_ok :: "dc_sqlite3_t \<Rightarrow> bool" where
  "pd_ok ths = list_all (\<lambda>i. m_pd ths i = None \<or> m_pd ths i = Some (pd_sql i)) all_pd_idx"

text \<open>The config table has the columns that the first-time initialisation gives it.\<close>

definition config_cols :: "coldef list" where
  "config_cols = [ColDef ''id'' ''INTEGER PRIMARY KEY'' VNull,
                  ColDef ''keyname'' ''TEXT'' VNull,
                  ColDef ''value'' ''TEXT'' VNull]"

definition config_ok :: "database \<Rightarrow> bool" where
  "config_ok db = (case find_table db ''config'' of None \<Rightarrow> False
                   | Some tb \<Rightarrow> tb_cols tb = config_cols)"

text \<open>
  A store as a read-write open leaves it: connected, writable, with a config table, and
  with a consistent statement cache.
\<close>

definition store_ready :: "dc_sqlite3_t \<Rightarrow> bool" where
  "store_ready ths =
     ((case m_cobj ths of None \<Rightarrow> False
       | Some c \<Rightarrow> \<not> cn_readonly c \<and> config_ok (cn_db c)) \<and> pd_ok ths)"

text \<open>What a database stores under a config key, as text, and the version it records.\<close>

definition stored_text :: "database \<Rightarrow> string \<Rightarrow> string option" where
  "stored_text db k =
     (case find_table db ''config'' of
        None \<Rightarrow> None
      | Some tb \<Rightarrow> sqlite3_column_text
                     (map (\<lambda>r. cell r ''value'')
                        (filter (\<lambda>r. cell r ''keyname'' = VText k) (tb_rows tb))))"

definition stored_version :: "database \<Rightarrow> int" where
  "stored_version db = (case stored_text db ''dbversion'' of None \<Rightarrow> 0
                        | Some s \<Rightarrow> to_int32 (atol s))"

text \<open>The statements stepped on a connection, read off its log.\<close>

fun stepped :: "event list \<Rightarrow> sql list" where
  "stepped [] = []"
| "stepped (EvPrepare q # es) = stepped es"
| "stepped (EvStep q args # es) = q # stepped es"

text \<open>Sequences of transaction calls.\<close>

datatype txn_call = CallBegin | CallCommit | CallRollback

fun do_call :: "txn_call \<Rightarrow> dc_sqlite3_t \<Rightarrow> dc_sqlite3_t" where
  "do_call CallBegin ths = dc_sqlite3_begin_transaction ths"
| "do_call CallCommit ths = dc_sqlite3_commit ths"
| "do_call CallRollback ths = dc_sqlite3_rollback ths"


text \<open>An open, writable store on an empty database, with an empty statement cache.\<close>

definition fresh_conn :: sqlite3 where
  "fresh_conn = \<lparr>cn_db = empty_database, cn_readonly = False, cn_snapshot = None, cn_log = []\<rparr>"

definition fresh_store :: dc_sqlite3_t where
  "fresh_store = (dc_sqlite3_new [])\<lparr>m_cobj := Some fresh_conn\<rparr>"

text \<open>An engine that is thread-safe and sees no file; the identity as fingerprint function.\<close>

definition fresh_env :: engine_env where
  "fresh_env = \<lparr>env_threadsafe = True, env_files = (\<lambda>f. None)\<rparr>"

definition fp_id :: "val \<Rightarrow> val" where
  "fp_id v = v"

text \<open>
  A database that holds nothing but a config table with the given keys and values, an
  engine that sees one file, and an open, writable store on a given database.
\<close>

definition config_db :: "(string \<times> string) list \<Rightarrow> database" where
  "config_db kvs =
     \<lparr>db_tables =
        [(''config'',
          \<lparr>tb_cols = config_cols,
           tb_rows = map (\<lambda>(i, k, v). [(''id'', VInt (int i + 1)), (''keyname'', VText k),
                                         (''value'', VText v)])
                         (enumerate 0 kvs)\<rparr>)],
      db_indexes = []\<rparr>"

definition env_with :: "string \<Rightarrow> database \<Rightarrow> engine_env" where
  "env_with f db = \<lparr>env_threadsafe = True, env_files = (\<lambda>g. if g = f then Some db else None)\<rparr>"

definition store_on :: "database \<Rightarrow> dc_sqlite3_t" where
  "store_on db =
     (dc_sqlite3_new [])\<lparr>m_cobj := Some \<lparr>cn_db = db, cn_readonly = False,
                                           cn_snapshot = None, cn_log = []\<rparr>\<rparr>"

text \<open>
  Two readings of a connection's log. \<open>submitted\<close> lists the statements handed to
  \<open>sqlite3_prepare_v2\<close> other than those of the statement cache: the one-shot statements
  of \<open>dc_sqlite3_execute__\<close>, \<open>dc_sqlite3_table_exists__\<close> and
  \<open>dc_sqlite3_prepare_v2_\<close>. \<open>config_writes\<close> lists the key and value of every stepped
  INSERT or UPDATE of the config store.
\<close>

fun submitted :: "event list \<Rightarrow> sql list" where
  "submitted [] = []"
| "submitted (EvPrepare q # es) =
     (if q \<in> set (map pd_sql all_pd_idx) then submitted es else q # submitted es)"
| "submitted (EvStep q args # es) = submitted es"

fun config_write :: "sql \<Rightarrow> val list \<Rightarrow> (string \<times> string) list" where
  "config_write q [VText a, VText b] =
     (if q = INSERT_INTO_config_kv_STATEMENT then [(a, b)]
      else if q = UPDATE_config_vk_STATEMENT then [(b, a)] else [])"
| "config_write q args = []"

fun config_writes :: "event list \<Rightarrow> (string \<times> string) list" where
  "config_writes [] = []"
| "config_writes (EvPrepare q # es) = config_writes es"
| "config_writes (EvStep q args # es) = config_write q args @ config_writes es"

text \<open>
  The two readings in one, which keeps their order: \<open>trace\<close> lists, as they occur in the
  log, the one-shot statements handed to the engine and the config writes stepped.
  \<open>subs\<close> and \<open>wrs\<close> pick the statements and the writes out of such a list.
\<close>

datatype action = Submit sql | Write string string

fun trace :: "event list \<Rightarrow> action list" where
  "trace [] = []"
| "trace (EvPrepare q # es) =
     (if q \<in> set (map pd_sql all_pd_idx) then trace es else Submit q # trace es)"
| "trace (EvStep q args # es) = map (\<lambda>(k, v). Write k v) (config_write q args) @ trace es"

fun subs :: "action list \<Rightarrow> sql list" where
  "subs [] = []"
| "subs (Submit q # as) = q # subs as"
| "subs (Write k v # as) = subs as"

fun wrs :: "action list \<Rightarrow> (string \<times> string) list" where
  "wrs [] = []"
| "wrs (Submit q # as) = wrs as"
| "wrs (Write k v # as) = (k, v) # wrs as"

text \<open>
  A leading integer prefix, in the spec's words: after optional white space and an
  optional sign there is a decimal digit. \<open>dec_value\<close> is the number that a string of
  decimal digits denotes.
\<close>

definition has_int_prefix :: "string \<Rightarrow> bool" where
  "has_int_prefix s =
     (case dropWhile isspace s of
        [] \<Rightarrow> False
      | c # cs \<Rightarrow> if c = CHR ''-'' \<or> c = CHR ''+''
                  then (case cs of [] \<Rightarrow> False | d # ds \<Rightarrow> isdigit d)
                  else isdigit c)"

definition dec_value :: "string \<Rightarrow> int" where
  "dec_value ds = foldl (\<lambda>a c. a * 10 + (of_char c - 48)) 0 ds"

text \<open>A store whose config table holds the text \<open>abc\<close> under the key \<open>k\<close>.\<close>

definition store_abc :: dc_sqlite3_t where
  "store_abc = store_on (config_db [(''k'', ''abc'')])"

text \<open>
  The database after a one-shot statement on a connection (\<open>ro\<close>: the connection is
  read-only), the table a statement acts on (by the lower-case form of its name), and the
  effect of a statement on that one table, computed by the engine on a database that
  holds nothing else.
\<close>

definition exec_db :: "bool \<Rightarrow> sql \<Rightarrow> database \<Rightarrow> database" where
  "exec_db ro q db = (if valid db q \<and> \<not> (writes q \<and> ro) then snd (snd (run [] q db)) else db)"

fun target :: "sql \<Rightarrow> string option" where
  "target (CREATE_TABLE t cols) = Some (name_key t)"
| "target (INSERT_INTO t cs rows) = Some (name_key t)"
| "target (ALTER_TABLE_ADD_COLUMN t cd) = Some (name_key t)"
| "target (DELETE_FROM t w) = Some (name_key t)"
| "target (UPDATE t sets w) = Some (name_key t)"
| "target q = None"

definition single_table :: "string \<Rightarrow> table option \<Rightarrow> database" where
  "single_table T tbo =
     \<lparr>db_tables = (case tbo of None \<Rightarrow> [] | Some tb \<Rightarrow> [(T, tb)]), db_indexes = []\<rparr>"

definition table_after :: "string \<Rightarrow> sql \<Rightarrow> table option \<Rightarrow> table option" where
  "table_after T q tbo = find_table (exec_db False q (single_table T tbo)) T"

definition tables_after :: "string \<Rightarrow> sql list \<Rightarrow> table option \<Rightarrow> table option" where
  "tables_after T qs tbo =
     fold (table_after T) (filter (\<lambda>q. target q = Some (name_key T)) qs) tbo"

text \<open>A one-shot statement: none of the statements of the cache.\<close>

definition oneshot :: "sql \<Rightarrow> bool" where
  "oneshot q = (q \<notin> set (map pd_sql all_pd_idx))"

text \<open>
  The ladder as data: its targets in the order of the source, and the statements of the
  block of each target (\<open>v0\<close> is the version found when the open began). \<open>ladder_block\<close>
  is the common shape of the eleven blocks.
\<close>

definition ladder_targets :: "int list" where
  "ladder_targets = [1, 2, 7, 10, 12, 17, 18, 27, 34, 39, 40]"

definition ladder_stmts :: "int \<Rightarrow> int \<Rightarrow> sql list" where
  "ladder_stmts v0 tgt =
     (if tgt = 1 then stmts_1
      else if tgt = 2 then stmts_2
      else if tgt = 7 then stmts_7
      else if tgt = 10 then stmts_10
      else if tgt = 12 then stmts_12
      else if tgt = 17 then stmts_17
      else if tgt = 18 then stmts_18
      else if tgt = 27 then stmts_27
      else if tgt = 34 then stmts_34
      else if tgt = 39 then stmts_39 @ (if v0 = 34 then [copy_gossip_key, copy_public_key] else [])
      else if tgt = 40 then stmts_40
      else [])"

definition ladder_block :: "int \<Rightarrow> open_vars \<Rightarrow> open_vars" where
  "ladder_block tgt vs =
     (if dbversion vs < tgt
      then set_dbversion tgt
             ((execute_in (ladder_stmts (dbversion_before_update vs) tgt) vs)
                \<lparr>recalc_fingerprints := (if tgt = 34 then 1 else recalc_fingerprints vs)\<rparr>)
      else vs)"

text \<open>
  A one-shot statement that leaves the config table alone, and the relation between a
  handle and a later one: \<open>evolves h X h'\<close> says that between \<open>h\<close> and \<open>h'\<close> the log has
  gained the one-shot statements and config writes \<open>X\<close>, in this order, that every table
  other than config is what the statements of \<open>X\<close> make of it, that the last write (if
  any) is what the config table now stores under its key, and that \<open>h'\<close> is a ready store.
\<close>

definition safe :: "sql \<Rightarrow> bool" where
  "safe q = (oneshot q \<and> target q \<noteq> Some ''config'')"

definition evolves :: "dc_sqlite3_t \<Rightarrow> action list \<Rightarrow> dc_sqlite3_t \<Rightarrow> bool" where
  "evolves h X h' =
     (\<exists>c c'. m_cobj h = Some c \<and> m_cobj h' = Some c' \<and> store_ready h'
        \<and> trace (cn_log c') = trace (cn_log c) @ X
        \<and> (\<forall>T. name_key T \<noteq> ''config'' \<longrightarrow>
              find_table (cn_db c') T = tables_after T (subs X) (find_table (cn_db c) T))
        \<and> (wrs X = [] \<longrightarrow> find_table (cn_db c') ''config'' = find_table (cn_db c) ''config'')
        \<and> (wrs X \<noteq> [] \<longrightarrow>
              stored_text (cn_db c') (fst (last (wrs X))) = Some (snd (last (wrs X)))))"

text \<open>What the part of the open before the ladder submits: the probe for the config table and, on first-time initialisation, the initial statements and the six probes that follow them.\<close>

definition before_ladder :: "bool \<Rightarrow> sql list" where
  "before_ladder first_time =
     PRAGMA_table_info ''config'' #
     (if first_time
      then init_stmts @ map PRAGMA_table_info [''config'', ''contacts'', ''chats'',
                                                ''chats_contacts'', ''msgs'', ''jobs'']
      else [])"

definition after_ladder :: "int \<Rightarrow> sql list" where
  "after_ladder v0 = (if v0 < 34 then [SELECT ''addr'' ''acpeerstates'' Always] else [])"

text \<open>
  What a successful read-write open hands to the engine, as the spec describes the ladder:
  the one-shot statements of the part before the ladder, then those of every block whose
  target exceeds the version found, in the order of the targets, then the SELECT of the
  fingerprint pass when the open crossed version 34; and the config writes, one per block
  that ran, each recording the block's target.
\<close>

definition open_submitted :: "bool \<Rightarrow> int \<Rightarrow> sql list" where
  "open_submitted first_time v0 =
     before_ladder first_time
     @ concat (map (ladder_stmts v0) (filter (\<lambda>tgt. v0 < tgt) ladder_targets))
     @ after_ladder v0"

definition open_writes :: "bool \<Rightarrow> int \<Rightarrow> (string \<times> string) list" where
  "open_writes first_time v0 =
     (if first_time then [(''dbversion'', int_dec 0)] else [])
     @ map (\<lambda>tgt. (''dbversion'', int_dec tgt)) (filter (\<lambda>tgt. v0 < tgt) ladder_targets)"

text \<open>
  The same with the order kept: the statements of the part before the ladder, the write
  of version 0 on first-time initialisation, then block by block the statements of the
  block followed by the write of its target, then the SELECT of the fingerprint pass.
\<close>

definition block_trace :: "int \<Rightarrow> int \<Rightarrow> action list" where
  "block_trace v0 tgt = map Submit (ladder_stmts v0 tgt) @ [Write ''dbversion'' (int_dec tgt)]"

definition open_trace :: "bool \<Rightarrow> int \<Rightarrow> action list" where
  "open_trace first_time v0 =
     map Submit (before_ladder first_time)
     @ (if first_time then [Write ''dbversion'' (int_dec 0)] else [])
     @ concat (map (block_trace v0) (filter (\<lambda>tgt. v0 < tgt) ladder_targets))
     @ map Submit (after_ladder v0)"

text \<open>
  What the fingerprint pass makes of the table acpeerstates: every address that the SELECT
  yields is handed to the collaborator, which recomputes the fingerprints of the rows
  with that address.
\<close>

definition resave_table :: "(val \<Rightarrow> val) \<Rightarrow> val \<Rightarrow> table \<Rightarrow> table" where
  "resave_table fp addr tb =
     (if addr = VNull then tb
      else tb\<lparr>tb_rows := map (\<lambda>r. if cell r ''addr'' = addr then recalc_row fp r else r)
                              (tb_rows tb)\<rparr>)"

definition recalc_table :: "(val \<Rightarrow> val) \<Rightarrow> table \<Rightarrow> table" where
  "recalc_table fp tb =
     (if ''addr'' \<in> set (col_names tb)
      then fold (resave_table fp) (map (\<lambda>r. cell r ''addr'') (tb_rows tb)) tb
      else tb)"

text \<open>
  The tables after a successful read-write open that found the version \<open>v0\<close>: every table
  is what the submitted statements make of it, and acpeerstates has then gone through
  the fingerprint pass when the open crossed version 34.
\<close>

definition opened_table ::
  "(val \<Rightarrow> val) \<Rightarrow> bool \<Rightarrow> int \<Rightarrow> string \<Rightarrow> table option \<Rightarrow> table option" where
  "opened_table fp first_time v0 T tbo =
     (if name_key T = ''acpeerstates'' \<and> v0 < 34
      then map_option (recalc_table fp) (tables_after T (open_submitted first_time v0) tbo)
      else tables_after T (open_submitted first_time v0) tbo)"

text \<open>The database that a read-write open of a file works on.\<close>

definition opened_db :: "engine_env \<Rightarrow> string \<Rightarrow> database" where
  "opened_db env f = (case env_files env f of None \<Rightarrow> empty_database | Some d \<Rightarrow> d)"

text \<open>The reserved rows: for every id from 1 to 9 the table has a row with that id.\<close>

definition reserved_ids :: "table \<Rightarrow> bool" where
  "reserved_ids tb = (\<forall>i\<in>{1..9}. \<exists>r\<in>set (tb_rows tb). cell r ''id'' = VInt i)"

section \<open>Names\<close>

lemma name_key_lower:
  "list_all (\<lambda>c. \<not> (65 \<le> (of_char c :: nat) \<and> (of_char c :: nat) \<le> 90)) s \<Longrightarrow> name_key s = s"
  by (induction s) (auto simp: name_key_def tolower_def)

lemma name_key_tables [simp]:
  "name_key ''config'' = ''config''" "name_key ''contacts'' = ''contacts''"
  "name_key ''chats'' = ''chats''" "name_key ''chats_contacts'' = ''chats_contacts''"
  "name_key ''msgs'' = ''msgs''" "name_key ''jobs'' = ''jobs''"
  "name_key ''leftgrps'' = ''leftgrps''" "name_key ''keypairs'' = ''keypairs''"
  "name_key ''acpeerstates'' = ''acpeerstates''" "name_key ''msgs_mdns'' = ''msgs_mdns''"
  "name_key ''tokens'' = ''tokens''"
  by (rule name_key_lower, simp)+

lemma name_key_indexes [simp]:
  "name_key ''config_index1'' = ''config_index1''"
  "name_key ''contacts_index1'' = ''contacts_index1''"
  "name_key ''contacts_index2'' = ''contacts_index2''"
  "name_key ''chats_index1'' = ''chats_index1''"
  "name_key ''chats_index2'' = ''chats_index2''"
  "name_key ''chats_contacts_index1'' = ''chats_contacts_index1''"
  "name_key ''chats_contacts_index2'' = ''chats_contacts_index2''"
  "name_key ''msgs_index1'' = ''msgs_index1''" "name_key ''msgs_index2'' = ''msgs_index2''"
  "name_key ''msgs_index3'' = ''msgs_index3''" "name_key ''msgs_index4'' = ''msgs_index4''"
  "name_key ''msgs_index5'' = ''msgs_index5''" "name_key ''jobs_index1'' = ''jobs_index1''"
  "name_key ''leftgrps_index1'' = ''leftgrps_index1''"
  "name_key ''acpeerstates_index1'' = ''acpeerstates_index1''"
  "name_key ''acpeerstates_index3'' = ''acpeerstates_index3''"
  "name_key ''acpeerstates_index4'' = ''acpeerstates_index4''"
  "name_key ''acpeerstates_index5'' = ''acpeerstates_index5''"
  "name_key ''msgs_mdns_index1'' = ''msgs_mdns_index1''"
  by (rule name_key_lower, simp)+

lemma plain_tables [simp]:
  "''config'' \<notin> set schema_tables" "''contacts'' \<notin> set schema_tables"
  "''chats'' \<notin> set schema_tables" "''chats_contacts'' \<notin> set schema_tables"
  "''msgs'' \<notin> set schema_tables" "''jobs'' \<notin> set schema_tables"
  "\<not> reserved_name ''config''" "\<not> reserved_name ''contacts''" "\<not> reserved_name ''chats''"
  "\<not> reserved_name ''chats_contacts''" "\<not> reserved_name ''msgs''" "\<not> reserved_name ''jobs''"
  "\<not> reserved_name ''leftgrps''" "\<not> reserved_name ''keypairs''"
  "\<not> reserved_name ''acpeerstates''" "\<not> reserved_name ''msgs_mdns''"
  "\<not> reserved_name ''tokens''"
  by (simp_all add: schema_tables_def reserved_name_def)

lemma find_table_key: "name_key T = name_key t \<Longrightarrow> find_table db T = find_table db t"
  by (simp add: find_table_def)

lemma map_of_put:
  "map_of (map (\<lambda>(n, tb). (name_key n, tb))
             (map (\<lambda>(n, x). (n, if name_key n = K then tb else x)) xs)) k =
     (if k = K then map_option (\<lambda>x. tb) (map_of (map (\<lambda>(n, tb). (name_key n, tb)) xs) k)
      else map_of (map (\<lambda>(n, tb). (name_key n, tb)) xs) k)"
  by (induction xs) auto

lemma find_put_table:
  "find_table (put_table t tb db) T =
     (if name_key T = name_key t then map_option (\<lambda>x. tb) (find_table db T)
      else find_table db T)"
  unfolding find_table_def put_table_def by (simp add: map_of_put del: map_map)

lemma find_put_same:
  "find_table db t = Some tb0 \<Longrightarrow> find_table (put_table t tb db) t = Some tb"
  by (simp add: find_put_table)

lemma indexes_put_table [simp]: "db_indexes (put_table t tb db) = db_indexes db"
  by (simp add: put_table_def)

lemma find_table_empty [simp]: "find_table empty_database T = None"
  by (simp add: find_table_def empty_database_def)

section \<open>The transaction counter\<close>

lemma pd_okD: "pd_ok ths \<Longrightarrow> m_pd ths i = None \<or> m_pd ths i = Some (pd_sql i)"
  by (cases i) (simp_all add: pd_ok_def all_pd_idx_def)

lemma pd_okI: "(\<And>i. m_pd ths i = None \<or> m_pd ths i = Some (pd_sql i)) \<Longrightarrow> pd_ok ths"
  by (simp add: pd_ok_def list_all_iff)

lemma predefine_count:
  "dc_sqlite3_predefine ths i q = (st, ths') \<Longrightarrow> m_transactionCount ths' = m_transactionCount ths"
  by (auto simp: dc_sqlite3_predefine_def dc_sqlite3_log_error_def dc_log_error_def
        split: option.splits prod.splits if_splits)

lemma step_stmt_count:
  "step_stmt ths st args = (r, res, ths') \<Longrightarrow> m_transactionCount ths' = m_transactionCount ths"
  by (auto simp: step_stmt_def split: option.splits prod.splits)

lemma begin_count:
  "m_transactionCount (dc_sqlite3_begin_transaction ths) = m_transactionCount ths + 1"
  by (auto simp: dc_sqlite3_begin_transaction_def dc_sqlite3_log_error_def dc_log_error_def Let_def
        split: prod.splits dest!: predefine_count step_stmt_count)

lemma commit_count:
  "m_transactionCount (dc_sqlite3_commit ths) =
     (if 1 \<le> m_transactionCount ths then m_transactionCount ths - 1 else m_transactionCount ths)"
  by (auto simp: dc_sqlite3_commit_def dc_sqlite3_log_error_def dc_log_error_def Let_def
        split: prod.splits dest!: predefine_count step_stmt_count)

lemma rollback_count:
  "m_transactionCount (dc_sqlite3_rollback ths) =
     (if 1 \<le> m_transactionCount ths then m_transactionCount ths - 1 else m_transactionCount ths)"
  by (auto simp: dc_sqlite3_rollback_def dc_sqlite3_log_error_def dc_log_error_def Let_def
        split: prod.splits dest!: predefine_count step_stmt_count)

lemma do_call_nonneg:
  "0 \<le> m_transactionCount ths \<Longrightarrow> 0 \<le> m_transactionCount (do_call c ths)"
  by (cases c) (simp_all add: begin_count commit_count rollback_count)

lemma fold_do_call_nonneg:
  "0 \<le> m_transactionCount ths \<Longrightarrow> 0 \<le> m_transactionCount (fold do_call cs ths)"
  by (induction cs arbitrary: ths) (simp_all add: do_call_nonneg)

text \<open>
  Claim C9. With the counter at 0, \<open>dc_sqlite3_commit__\<close> and \<open>dc_sqlite3_rollback__\<close>
  return the handle as it is: nothing reaches the connection, the counter stays 0 and the
  context's log receives nothing. Hence, from a non-negative counter, the counter is
  non-negative after every sequence of begin, commit and rollback calls.
\<close>

theorem C9_commit_rollback_at_zero:
  "(m_transactionCount ths = 0 \<longrightarrow>
      dc_sqlite3_commit ths = ths \<and> dc_sqlite3_rollback ths = ths)
   \<and> (0 \<le> m_transactionCount ths \<longrightarrow> 0 \<le> m_transactionCount (fold do_call cs ths))"
  by (simp add: dc_sqlite3_commit_def dc_sqlite3_rollback_def fold_do_call_nonneg)

theorem C9_commit_rollback_at_zero_witness:
  "m_transactionCount (dc_sqlite3_new []) = 0
   \<and> dc_sqlite3_commit (dc_sqlite3_new []) = dc_sqlite3_new []
   \<and> dc_sqlite3_rollback (dc_sqlite3_new []) = dc_sqlite3_new []
   \<and> 0 \<le> m_transactionCount
            (fold do_call [CallCommit, CallBegin, CallRollback, CallRollback] (dc_sqlite3_new []))"
proof -
  have h: "m_transactionCount (dc_sqlite3_new []) = 0"
    by (simp add: dc_sqlite3_new_def)
  then have h': "0 \<le> m_transactionCount (dc_sqlite3_new [])"
    by simp
  show ?thesis
    using h h' C9_commit_rollback_at_zero
            [of "dc_sqlite3_new []" "[CallCommit, CallBegin, CallRollback, CallRollback]"]
    by blast
qed

section \<open>Nested transactions\<close>

lemma stepped_append: "stepped (a @ b) = stepped a @ stepped b"
  by (induction a rule: stepped.induct) simp_all

lemma sqlite3_step_log:
  "sqlite3_step c q args = (r, res, c') \<Longrightarrow>
     cn_log c' = cn_log c @ [EvStep q args] \<and> cn_readonly c' = cn_readonly c"
  by (auto simp: sqlite3_step_def Let_def split: if_splits option.splits prod.splits)

lemma predefine_canon:
  assumes "m_cobj t = Some c" and "pd_ok t" and "valid (cn_db c) (pd_sql i)"
  shows "dc_sqlite3_predefine t i (Some (pd_sql i)) =
           (Some (pd_sql i),
            t\<lparr>m_cobj := Some (c\<lparr>cn_log := cn_log c @
                                  (if m_pd t i = None then [EvPrepare (pd_sql i)] else [])\<rparr>),
              m_pd := (m_pd t)(i := Some (pd_sql i))\<rparr>)"
proof (cases "m_pd t i")
  case None
  with assms show ?thesis
    by (simp add: dc_sqlite3_predefine_def sqlite3_prepare_v2_def Let_def)
next
  case (Some q)
  with pd_okD [OF assms(2), of i] have q: "m_pd t i = Some (pd_sql i)"
    by simp
  then have "(m_pd t)(i := Some (pd_sql i)) = m_pd t"
    by (simp add: fun_upd_idem)
  with assms(1) q show ?thesis
    by (simp add: dc_sqlite3_predefine_def)
qed

lemma pd_ok_upd:
  "pd_ok t \<Longrightarrow> pd_ok (t\<lparr>m_cobj := x, m_pd := (m_pd t)(i := Some (pd_sql i))\<rparr>)"
  by (rule pd_okI) (auto dest: pd_okD)

lemma pd_ok_count [simp]: "pd_ok (t\<lparr>m_transactionCount := n\<rparr>) = pd_ok t"
  by (simp add: pd_ok_def)

lemma pd_ok_cobj [simp]: "pd_ok (t\<lparr>m_cobj := x\<rparr>) = pd_ok t"
  by (simp add: pd_ok_def)

lemma pd_ok_context [simp]: "pd_ok (t\<lparr>m_context := x\<rparr>) = pd_ok t"
  by (simp add: pd_ok_def)

lemma begin_inner:
  "1 \<le> m_transactionCount t \<Longrightarrow>
     dc_sqlite3_begin_transaction t = t\<lparr>m_transactionCount := m_transactionCount t + 1\<rparr>"
  by (simp add: dc_sqlite3_begin_transaction_def Let_def)

lemma commit_inner:
  "2 \<le> m_transactionCount t \<Longrightarrow>
     dc_sqlite3_commit t = t\<lparr>m_transactionCount := m_transactionCount t - 1\<rparr>"
  by (simp add: dc_sqlite3_commit_def Let_def)

lemma begin_first:
  assumes "m_cobj t = Some c" and "m_transactionCount t = 0" and "pd_ok t"
  shows "\<exists>c'. m_cobj (dc_sqlite3_begin_transaction t) = Some c'
           \<and> stepped (cn_log c') = stepped (cn_log c) @ [BEGIN]
           \<and> pd_ok (dc_sqlite3_begin_transaction t)
           \<and> m_transactionCount (dc_sqlite3_begin_transaction t) = 1"
proof -
  let ?t1 = "t\<lparr>m_transactionCount := m_transactionCount t + 1\<rparr>"
  have pre: "dc_sqlite3_predefine ?t1 BEGIN_transaction (Some (pd_sql BEGIN_transaction)) =
           (Some (pd_sql BEGIN_transaction),
            ?t1\<lparr>m_cobj := Some (c\<lparr>cn_log := cn_log c @
                      (if m_pd ?t1 BEGIN_transaction = None
                       then [EvPrepare (pd_sql BEGIN_transaction)] else [])\<rparr>),
              m_pd := (m_pd ?t1)(BEGIN_transaction := Some (pd_sql BEGIN_transaction))\<rparr>)"
    by (rule predefine_canon) (use assms in simp_all)
  obtain r res c3 where st: "sqlite3_step (c\<lparr>cn_log := cn_log c @
                      (if m_pd ?t1 BEGIN_transaction = None
                       then [EvPrepare (pd_sql BEGIN_transaction)] else [])\<rparr>) BEGIN [] = (r, res, c3)"
    by (metis prod_cases3)
  from sqlite3_step_log [OF st] have lg: "stepped (cn_log c3) = stepped (cn_log c) @ [BEGIN]"
    by (simp add: stepped_append)
  show ?thesis
    using pre st lg assms(2,3)
    by (auto simp: dc_sqlite3_begin_transaction_def Let_def step_stmt_def dc_sqlite3_log_error_def
          dc_log_error_def pd_ok_def all_pd_idx_def)
qed

lemma commit_last:
  assumes "m_cobj t = Some c" and "m_transactionCount t = 1" and "pd_ok t"
  shows "\<exists>c'. m_cobj (dc_sqlite3_commit t) = Some c'
           \<and> stepped (cn_log c') = stepped (cn_log c) @ [COMMIT]
           \<and> pd_ok (dc_sqlite3_commit t)
           \<and> m_transactionCount (dc_sqlite3_commit t) = 0"
proof -
  have pre: "dc_sqlite3_predefine t COMMIT_transaction (Some (pd_sql COMMIT_transaction)) =
           (Some (pd_sql COMMIT_transaction),
            t\<lparr>m_cobj := Some (c\<lparr>cn_log := cn_log c @
                      (if m_pd t COMMIT_transaction = None
                       then [EvPrepare (pd_sql COMMIT_transaction)] else [])\<rparr>),
              m_pd := (m_pd t)(COMMIT_transaction := Some (pd_sql COMMIT_transaction))\<rparr>)"
    by (rule predefine_canon) (use assms in simp_all)
  obtain r res c3 where st: "sqlite3_step (c\<lparr>cn_log := cn_log c @
                      (if m_pd t COMMIT_transaction = None
                       then [EvPrepare (pd_sql COMMIT_transaction)] else [])\<rparr>) COMMIT [] = (r, res, c3)"
    by (metis prod_cases3)
  from sqlite3_step_log [OF st] have lg: "stepped (cn_log c3) = stepped (cn_log c) @ [COMMIT]"
    by (simp add: stepped_append)
  show ?thesis
    using pre st lg assms(2,3)
    by (auto simp: dc_sqlite3_commit_def Let_def step_stmt_def dc_sqlite3_log_error_def
          dc_log_error_def pd_ok_def all_pd_idx_def)
qed

lemma begin_pow:
  "1 \<le> m_transactionCount t \<Longrightarrow>
     (dc_sqlite3_begin_transaction ^^ n) t = t\<lparr>m_transactionCount := m_transactionCount t + int n\<rparr>"
  by (induction n) (simp_all add: begin_inner)

lemma commit_pow:
  "int n + 1 \<le> m_transactionCount t \<Longrightarrow>
     (dc_sqlite3_commit ^^ n) t = t\<lparr>m_transactionCount := m_transactionCount t - int n\<rparr>"
  by (induction n) (simp_all add: commit_inner)

text \<open>
  Claim C3. On an open store whose cache is consistent and whose counter is 0, \<open>N \<ge> 1\<close>
  calls of \<open>dc_sqlite3_begin_transaction__\<close> followed by \<open>N\<close> calls of \<open>dc_sqlite3_commit__\<close>
  step exactly two statements on the connection, one BEGIN and then one COMMIT, and leave
  the counter at 0. A begin at a counter of at least 1 and a commit at a counter of at
  least 2 change nothing but the counter.
\<close>

theorem C3_nested_begin_commit:
  assumes "m_cobj t = Some c" and "pd_ok t" and "m_transactionCount t = 0" and "1 \<le> N"
  shows "(\<exists>c'. m_cobj ((dc_sqlite3_commit ^^ N) ((dc_sqlite3_begin_transaction ^^ N) t)) = Some c'
            \<and> stepped (cn_log c') = stepped (cn_log c) @ [BEGIN, COMMIT]
            \<and> m_transactionCount ((dc_sqlite3_commit ^^ N) ((dc_sqlite3_begin_transaction ^^ N) t)) = 0)
         \<and> (\<forall>s. 1 \<le> m_transactionCount s \<longrightarrow>
               dc_sqlite3_begin_transaction s = s\<lparr>m_transactionCount := m_transactionCount s + 1\<rparr>)
         \<and> (\<forall>s. 2 \<le> m_transactionCount s \<longrightarrow>
               dc_sqlite3_commit s = s\<lparr>m_transactionCount := m_transactionCount s - 1\<rparr>)"
proof (intro conjI allI impI)
  obtain n where N: "N = Suc n"
    using assms(4) by (cases N) simp_all
  let ?b = "dc_sqlite3_begin_transaction t"
  from begin_first [OF assms(1,3,2)] obtain c1 where
    b: "m_cobj ?b = Some c1" "stepped (cn_log c1) = stepped (cn_log c) @ [BEGIN]"
       "pd_ok ?b" "m_transactionCount ?b = 1"
    by blast
  have "(dc_sqlite3_begin_transaction ^^ Suc n) t = (dc_sqlite3_begin_transaction ^^ n) ?b"
    by (simp add: funpow_swap1)
  also have "\<dots> = ?b\<lparr>m_transactionCount := 1 + int n\<rparr>"
    using begin_pow [of ?b n] b(4) by simp
  finally have bn: "(dc_sqlite3_begin_transaction ^^ Suc n) t = ?b\<lparr>m_transactionCount := 1 + int n\<rparr>" .
  have "(dc_sqlite3_commit ^^ n) (?b\<lparr>m_transactionCount := 1 + int n\<rparr>) = ?b\<lparr>m_transactionCount := 1\<rparr>"
    using commit_pow [of n "?b\<lparr>m_transactionCount := 1 + int n\<rparr>"] by simp
  also have "\<dots> = ?b"
    using b(4) by simp
  finally have cm: "(dc_sqlite3_commit ^^ n) (?b\<lparr>m_transactionCount := 1 + int n\<rparr>) = ?b" .
  have "(dc_sqlite3_commit ^^ Suc n) ((dc_sqlite3_begin_transaction ^^ Suc n) t)
          = dc_sqlite3_commit ((dc_sqlite3_commit ^^ n) ((dc_sqlite3_begin_transaction ^^ Suc n) t))"
    by simp
  also have "\<dots> = dc_sqlite3_commit ((dc_sqlite3_commit ^^ n) (?b\<lparr>m_transactionCount := 1 + int n\<rparr>))"
    by (simp only: bn)
  also have "\<dots> = dc_sqlite3_commit ?b"
    by (simp only: cm)
  finally have "(dc_sqlite3_commit ^^ Suc n) ((dc_sqlite3_begin_transaction ^^ Suc n) t) = dc_sqlite3_commit ?b" .
  then have cn: "(dc_sqlite3_commit ^^ N) ((dc_sqlite3_begin_transaction ^^ N) t) = dc_sqlite3_commit ?b"
    by (simp only: N)
  from commit_last [OF b(1,4,3)] obtain c2 where
    "m_cobj (dc_sqlite3_commit ?b) = Some c2" "stepped (cn_log c2) = stepped (cn_log c1) @ [COMMIT]"
    "m_transactionCount (dc_sqlite3_commit ?b) = 0"
    by blast
  with b(2) cn
  show "\<exists>c'. m_cobj ((dc_sqlite3_commit ^^ N) ((dc_sqlite3_begin_transaction ^^ N) t)) = Some c'
           \<and> stepped (cn_log c') = stepped (cn_log c) @ [BEGIN, COMMIT]
           \<and> m_transactionCount ((dc_sqlite3_commit ^^ N) ((dc_sqlite3_begin_transaction ^^ N) t)) = 0"
    by simp
qed (simp_all add: begin_inner commit_inner)

theorem C3_nested_begin_commit_witness:
  "m_cobj fresh_store = Some fresh_conn \<and> pd_ok fresh_store
   \<and> m_transactionCount fresh_store = 0 \<and> (1::nat) \<le> 2
   \<and> (\<exists>c'. m_cobj ((dc_sqlite3_commit ^^ 2) ((dc_sqlite3_begin_transaction ^^ 2) fresh_store)) = Some c'
          \<and> stepped (cn_log c') = [BEGIN, COMMIT]
          \<and> m_transactionCount
               ((dc_sqlite3_commit ^^ 2) ((dc_sqlite3_begin_transaction ^^ 2) fresh_store)) = 0)"
proof -
  have h1: "m_cobj fresh_store = Some fresh_conn"
    by (simp add: fresh_store_def)
  have h2: "pd_ok fresh_store"
    by (simp add: fresh_store_def dc_sqlite3_new_def pd_ok_def all_pd_idx_def)
  have h3: "m_transactionCount fresh_store = 0"
    by (simp add: fresh_store_def dc_sqlite3_new_def)
  have h4: "(1::nat) \<le> 2"
    by simp
  have "stepped (cn_log fresh_conn) = []"
    by (simp add: fresh_conn_def)
  with C3_nested_begin_commit [OF h1 h2 h3 h4] h1 h2 h3 show ?thesis
    by simp
qed

section \<open>Opening: failure and the read-only branch\<close>

lemma open_failure_is_cleanup:
  "fst (dc_sqlite3_open fp env ths dbfile flags) = 1
   \<or> (\<exists>x. dc_sqlite3_open fp env ths dbfile flags = open_cleanup x)"
  by (auto simp: dc_sqlite3_open_def Let_def split: option.splits prod.splits)

lemma is_open_after_cleanup: "dc_sqlite3_is_open (snd (open_cleanup x)) = 0"
  by (cases x) (simp_all add: open_cleanup_def dc_sqlite3_close_def dc_sqlite3_is_open_def
        dc_log_info_def)

lemma open_on_open_handle:
  assumes "m_cobj t \<noteq> None"
  shows "\<exists>t'. dc_sqlite3_open fp env (Some t) dbfile flags = (0, Some t')
              \<and> m_cobj t' = None \<and> (\<forall>i. m_pd t' i = None)"
  using assms
  by (auto simp: dc_sqlite3_open_def open_cleanup_def dc_sqlite3_close_def dc_log_info_def
        dc_log_error_def split: option.splits)

text \<open>
  Claim C10. Whenever \<open>dc_sqlite3_open__\<close> returns 0, the handle it leaves is closed
  (\<open>dc_sqlite3_is_open\<close> gives 0; a null handle counts as closed). In particular a call on
  a handle that is already open returns 0 and leaves that handle without its connection
  and with every cache slot emptied.
\<close>

theorem C10_failed_open_closes:
  "(fst (dc_sqlite3_open fp env ths dbfile flags) = 0 \<longrightarrow>
      dc_sqlite3_is_open (snd (dc_sqlite3_open fp env ths dbfile flags)) = 0)
   \<and> (\<forall>t. ths = Some t \<and> m_cobj t \<noteq> None \<longrightarrow>
         (\<exists>t'. dc_sqlite3_open fp env ths dbfile flags = (0, Some t')
               \<and> m_cobj t' = None \<and> (\<forall>i. m_pd t' i = None)))"
proof (intro conjI impI allI)
  assume "fst (dc_sqlite3_open fp env ths dbfile flags) = 0"
  with open_failure_is_cleanup [of fp env ths dbfile flags]
  obtain x where "dc_sqlite3_open fp env ths dbfile flags = open_cleanup x"
    by auto
  then show "dc_sqlite3_is_open (snd (dc_sqlite3_open fp env ths dbfile flags)) = 0"
    by (simp add: is_open_after_cleanup)
next
  fix t
  assume "ths = Some t \<and> m_cobj t \<noteq> None"
  then show "\<exists>t'. dc_sqlite3_open fp env ths dbfile flags = (0, Some t')
               \<and> m_cobj t' = None \<and> (\<forall>i. m_pd t' i = None)"
    using open_on_open_handle [of t fp env dbfile flags] by simp
qed

theorem C10_failed_open_closes_witness:
  "m_cobj fresh_store \<noteq> None
   \<and> fst (dc_sqlite3_open fp_id fresh_env (Some fresh_store) (Some ''/tmp/x.db'') 0) = 0
   \<and> dc_sqlite3_is_open
        (snd (dc_sqlite3_open fp_id fresh_env (Some fresh_store) (Some ''/tmp/x.db'') 0)) = 0
   \<and> (\<exists>t'. dc_sqlite3_open fp_id fresh_env (Some fresh_store) (Some ''/tmp/x.db'') 0 = (0, Some t')
          \<and> m_cobj t' = None \<and> (\<forall>i. m_pd t' i = None))"
proof -
  have h: "m_cobj fresh_store \<noteq> None"
    by (simp add: fresh_store_def)
  note inst = C10_failed_open_closes [of fp_id fresh_env "Some fresh_store" "Some ''/tmp/x.db''" 0]
  from inst h have ex: "\<exists>t'. dc_sqlite3_open fp_id fresh_env (Some fresh_store) (Some ''/tmp/x.db'') 0
                              = (0, Some t') \<and> m_cobj t' = None \<and> (\<forall>i. m_pd t' i = None)"
    by blast
  then have z: "fst (dc_sqlite3_open fp_id fresh_env (Some fresh_store) (Some ''/tmp/x.db'') 0) = 0"
    by auto
  with inst have "dc_sqlite3_is_open
        (snd (dc_sqlite3_open fp_id fresh_env (Some fresh_store) (Some ''/tmp/x.db'') 0)) = 0"
    by blast
  with h ex z show ?thesis
    by blast
qed

text \<open>
  Claim C5. When the engine is thread-safe, the handle is closed and the file exists, an
  open with the READONLY bit set returns 1 and leaves the handle with a read-only
  connection whose database is the file's database as it was and whose log is empty: no
  statement was handed to the engine, so the stored dbversion, the tables, the indexes
  and the rows are untouched. Only the success line is logged, and the handle is open.
\<close>

theorem C5_readonly_open_skips_migration:
  assumes "env_threadsafe env" and "m_cobj t = None" and "env_files env f = Some db"
    and "and flags MR_OPEN_READONLY \<noteq> 0"
  shows "dc_sqlite3_open fp env (Some t) (Some f) flags =
           (1, Some (dc_log_info
                       (t\<lparr>m_cobj := Some \<lparr>cn_db = db, cn_readonly = True,
                                          cn_snapshot = None, cn_log = []\<rparr>\<rparr>)
                       ''Opened %s successfully.''))
         \<and> dc_sqlite3_is_open (snd (dc_sqlite3_open fp env (Some t) (Some f) flags)) = 1"
  using assms
  by (simp add: dc_sqlite3_open_def sqlite3_open_v2_def dc_sqlite3_is_open_def dc_log_info_def)


theorem C5_readonly_open_skips_migration_witness:
  "env_threadsafe (env_with ''/tmp/x.db'' (config_db [(''dbversion'', ''18'')]))
   \<and> m_cobj (dc_sqlite3_new []) = None
   \<and> env_files (env_with ''/tmp/x.db'' (config_db [(''dbversion'', ''18'')])) ''/tmp/x.db''
        = Some (config_db [(''dbversion'', ''18'')])
   \<and> and 1 MR_OPEN_READONLY \<noteq> 0
   \<and> dc_sqlite3_open fp_id (env_with ''/tmp/x.db'' (config_db [(''dbversion'', ''18'')]))
         (Some (dc_sqlite3_new [])) (Some ''/tmp/x.db'') 1 =
       (1, Some (dc_log_info
                   ((dc_sqlite3_new [])\<lparr>m_cobj := Some \<lparr>cn_db = config_db [(''dbversion'', ''18'')],
                       cn_readonly = True, cn_snapshot = None, cn_log = []\<rparr>\<rparr>)
                   ''Opened %s successfully.''))
   \<and> dc_sqlite3_is_open
        (snd (dc_sqlite3_open fp_id (env_with ''/tmp/x.db'' (config_db [(''dbversion'', ''18'')]))
                (Some (dc_sqlite3_new [])) (Some ''/tmp/x.db'') 1)) = 1"
proof -
  have h1: "env_threadsafe (env_with ''/tmp/x.db'' (config_db [(''dbversion'', ''18'')]))"
    by (simp add: env_with_def)
  have h2: "m_cobj (dc_sqlite3_new []) = None"
    by (simp add: dc_sqlite3_new_def)
  have h3: "env_files (env_with ''/tmp/x.db'' (config_db [(''dbversion'', ''18'')])) ''/tmp/x.db''
              = Some (config_db [(''dbversion'', ''18'')])"
    by (simp add: env_with_def)
  have h4: "and 1 MR_OPEN_READONLY \<noteq> 0"
    by (simp add: MR_OPEN_READONLY_def)
  from C5_readonly_open_skips_migration [OF h1 h2 h3 h4, of fp_id] h1 h2 h3 h4
  show ?thesis
    by blast
qed

section \<open>The config store on the engine\<close>

lemma cell_update: "cell (AList.update c v r) c' = (if c' = c then v else cell r c')"
  by (simp add: cell_def update_conv')

lemma valid_config_stmts:
  assumes "find_table db ''config'' = Some tb" and "tb_cols tb = config_cols"
  shows "valid db SELECT_v_FROM_config_k_STATEMENT" and "valid db INSERT_INTO_config_kv_STATEMENT"
    and "valid db UPDATE_config_vk_STATEMENT" and "valid db DELETE_FROM_config_k_STATEMENT"
  using assms
  by (simp_all add: SELECT_v_FROM_config_k_STATEMENT_def INSERT_INTO_config_kv_STATEMENT_def
        UPDATE_config_vk_STATEMENT_def DELETE_FROM_config_k_STATEMENT_def has_cols_def
        col_names_def config_cols_def)

lemma run_select:
  assumes "find_table db ''config'' = Some tb"
  shows "run [VText k] SELECT_v_FROM_config_k_STATEMENT db =
           (if filter (\<lambda>r. cell r ''keyname'' = VText k) (tb_rows tb) = [] then SQLITE_DONE
            else SQLITE_ROW,
            map (\<lambda>r. cell r ''value'') (filter (\<lambda>r. cell r ''keyname'' = VText k) (tb_rows tb)),
            db)"
proof -
  have "(\<lambda>r. cell r ''keyname'' \<noteq> VNull \<and> cell r ''keyname'' = VText k)
          = (\<lambda>r. cell r ''keyname'' = VText k)"
    by auto
  with assms show ?thesis
    by (simp add: SELECT_v_FROM_config_k_STATEMENT_def Let_def)
qed

lemma pk_col_config: "tb_cols tb = config_cols \<Longrightarrow> pk_col tb = Some ''id''"
  by (simp add: pk_col_def config_cols_def)

lemma run_insert:
  assumes "find_table db ''config'' = Some tb" and "tb_cols tb = config_cols"
  shows "run [VText k, VText v] INSERT_INTO_config_kv_STATEMENT db =
           (SQLITE_DONE, [],
            put_table ''config''
              (tb\<lparr>tb_rows := tb_rows tb @
                     [[(''id'', VInt (next_rowid (Some ''id'') (tb_rows tb))),
                       (''keyname'', VText k), (''value'', VText v)]]\<rparr>) db)"
  using assms
  by (simp add: INSERT_INTO_config_kv_STATEMENT_def make_row_def pk_col_config Let_def)
     (simp add: config_cols_def cell_def)

lemma run_update:
  assumes "find_table db ''config'' = Some tb"
  shows "run [VText v, VText k] UPDATE_config_vk_STATEMENT db =
           (SQLITE_DONE, [],
            put_table ''config''
              (tb\<lparr>tb_rows := map (\<lambda>r. if cell r ''keyname'' = VText k
                                        then AList.update ''value'' (VText v) r else r)
                                  (tb_rows tb)\<rparr>) db)"
proof -
  have "(\<lambda>r. if eval_cond [VText v, VText k] r (Eq ''keyname'' (Param 1))
              then update_row [VText v, VText k] [(''value'', Param 0)] r else r)
          = (\<lambda>r. if cell r ''keyname'' = VText k then AList.update ''value'' (VText v) r else r)"
    by (rule ext) (auto simp: update_row_def)
  with assms show ?thesis
    by (simp add: UPDATE_config_vk_STATEMENT_def del: eval_cond.simps)
qed

lemma run_delete:
  assumes "find_table db ''config'' = Some tb"
  shows "run [VText k] DELETE_FROM_config_k_STATEMENT db =
           (SQLITE_DONE, [],
            put_table ''config''
              (tb\<lparr>tb_rows := filter (\<lambda>r. cell r ''keyname'' \<noteq> VText k) (tb_rows tb)\<rparr>) db)"
proof -
  have "(\<lambda>r. \<not> (cell r ''keyname'' \<noteq> VNull \<and> cell r ''keyname'' = VText k))
          = (\<lambda>r. cell r ''keyname'' \<noteq> VText k)"
    by auto
  with assms show ?thesis
    by (simp add: DELETE_FROM_config_k_STATEMENT_def)
qed

lemma submitted_append: "submitted (a @ b) = submitted a @ submitted b"
  by (induction a rule: submitted.induct) simp_all

lemma config_writes_append: "config_writes (a @ b) = config_writes a @ config_writes b"
  by (induction a rule: config_writes.induct) simp_all

lemma sqlite3_step_plain:
  assumes "valid (cn_db c) q" and "\<not> (writes q \<and> cn_readonly c)"
    and "q \<noteq> BEGIN" and "q \<noteq> COMMIT" and "q \<noteq> ROLLBACK"
  shows "sqlite3_step c q args =
           (fst (run args q (cn_db c)), fst (snd (run args q (cn_db c))),
            c\<lparr>cn_log := cn_log c @ [EvStep q args], cn_db := snd (snd (run args q (cn_db c)))\<rparr>)"
  using assms by (auto simp: sqlite3_step_def Let_def case_prod_beta)

lemma cached_step:
  assumes "m_cobj t = Some c" and "pd_ok t" and "valid (cn_db c) (pd_sql i)"
    and "\<not> (writes (pd_sql i) \<and> cn_readonly c)"
    and "pd_sql i \<noteq> BEGIN" and "pd_sql i \<noteq> COMMIT" and "pd_sql i \<noteq> ROLLBACK"
    and "dc_sqlite3_predefine t i (Some (pd_sql i)) = (stmt, t1)"
    and "step_stmt t1 stmt args = (r, res, t2)"
  shows "r = fst (run args (pd_sql i) (cn_db c)) \<and> res = fst (snd (run args (pd_sql i) (cn_db c)))
         \<and> pd_ok t2 \<and> m_transactionCount t2 = m_transactionCount t \<and> m_context t2 = m_context t
         \<and> (\<exists>l. (l = [] \<or> l = [EvPrepare (pd_sql i)])
               \<and> m_cobj t2 = Some (c\<lparr>cn_log := cn_log c @ l @ [EvStep (pd_sql i) args],
                                      cn_db := snd (snd (run args (pd_sql i) (cn_db c)))\<rparr>))"
proof -
  let ?l = "if m_pd t i = None then [EvPrepare (pd_sql i)] else []"
  let ?c1 = "c\<lparr>cn_log := cn_log c @ ?l\<rparr>"
  from predefine_canon [OF assms(1,2,3)] assms(8)
  have st: "stmt = Some (pd_sql i)"
    and t1: "t1 = t\<lparr>m_cobj := Some ?c1, m_pd := (m_pd t)(i := Some (pd_sql i))\<rparr>"
    by simp_all
  have "sqlite3_step ?c1 (pd_sql i) args =
          (fst (run args (pd_sql i) (cn_db ?c1)), fst (snd (run args (pd_sql i) (cn_db ?c1))),
           ?c1\<lparr>cn_log := cn_log ?c1 @ [EvStep (pd_sql i) args],
               cn_db := snd (snd (run args (pd_sql i) (cn_db ?c1)))\<rparr>)"
    by (rule sqlite3_step_plain) (use assms in simp_all)
  with assms(9) st t1
  have r: "r = fst (run args (pd_sql i) (cn_db c))"
    and res: "res = fst (snd (run args (pd_sql i) (cn_db c)))"
    and t2: "t2 = t1\<lparr>m_cobj := Some (c\<lparr>cn_log := cn_log c @ ?l @ [EvStep (pd_sql i) args],
                                       cn_db := snd (snd (run args (pd_sql i) (cn_db c)))\<rparr>)\<rparr>"
    by (simp_all add: step_stmt_def)
  have "pd_ok t1"
    unfolding t1 by (rule pd_ok_upd) (rule assms(2))
  with t2 have "pd_ok t2"
    by simp
  moreover have "?l = [] \<or> ?l = [EvPrepare (pd_sql i)]"
    by simp
  moreover have "m_cobj t2 = Some (c\<lparr>cn_log := cn_log c @ ?l @ [EvStep (pd_sql i) args],
                                       cn_db := snd (snd (run args (pd_sql i) (cn_db c)))\<rparr>)"
    unfolding t2 by simp
  moreover have "m_transactionCount t2 = m_transactionCount t" "m_context t2 = m_context t"
    unfolding t2 t1 by simp_all
  ultimately show ?thesis
    using r res by blast
qed

lemma config_okE:
  assumes "config_ok db"
  obtains tb where "find_table db ''config'' = Some tb" and "tb_cols tb = config_cols"
  using assms by (auto simp: config_ok_def split: option.splits)

lemma stored_text_find:
  "find_table db ''config'' = Some tb \<Longrightarrow>
     stored_text db k = sqlite3_column_text
        (map (\<lambda>r. cell r ''value'') (filter (\<lambda>r. cell r ''keyname'' = VText k) (tb_rows tb)))"
  by (simp add: stored_text_def)

lemma column_text_Nil [simp]: "sqlite3_column_text [] = None"
  by (simp add: sqlite3_column_text_def)

lemma select_log:
  "l = [] \<or> l = [EvPrepare SELECT_v_FROM_config_k_STATEMENT] \<Longrightarrow>
     submitted (l @ [EvStep SELECT_v_FROM_config_k_STATEMENT [VText k]]) = []
     \<and> config_writes (l @ [EvStep SELECT_v_FROM_config_k_STATEMENT [VText k]]) = []"
  by (auto simp: all_pd_idx_def)

text \<open>Reading a key: the stored text, or the default when nothing or NULL is stored.\<close>

lemma get_config_stored:
  assumes "m_cobj t = Some c" and "pd_ok t" and "config_ok (cn_db c)"
  shows "\<exists>t' l. dc_sqlite3_get_config t (Some k) def =
                  ((case stored_text (cn_db c) k of None \<Rightarrow> def | Some s \<Rightarrow> Some s), t')
              \<and> pd_ok t' \<and> m_cobj t' = Some (c\<lparr>cn_log := cn_log c @ l\<rparr>)
              \<and> submitted l = [] \<and> config_writes l = []
              \<and> m_transactionCount t' = m_transactionCount t \<and> m_context t' = m_context t"
proof -
  from assms(3) obtain tb where tb: "find_table (cn_db c) ''config'' = Some tb"
    "tb_cols tb = config_cols"
    by (rule config_okE)
  let ?res = "map (\<lambda>r. cell r ''value'') (filter (\<lambda>r. cell r ''keyname'' = VText k) (tb_rows tb))"
  obtain stmt t1 where p: "dc_sqlite3_predefine t SELECT_v_FROM_config_k
                             (Some SELECT_v_FROM_config_k_STATEMENT) = (stmt, t1)"
    by fastforce
  obtain r res t2 where s: "step_stmt t1 stmt [VText k] = (r, res, t2)"
    by (metis prod_cases3)
  have "r = fst (run [VText k] (pd_sql SELECT_v_FROM_config_k) (cn_db c))
         \<and> res = fst (snd (run [VText k] (pd_sql SELECT_v_FROM_config_k) (cn_db c)))
         \<and> pd_ok t2 \<and> m_transactionCount t2 = m_transactionCount t \<and> m_context t2 = m_context t
         \<and> (\<exists>l. (l = [] \<or> l = [EvPrepare (pd_sql SELECT_v_FROM_config_k)])
               \<and> m_cobj t2 = Some (c\<lparr>cn_log := cn_log c @ l @ [EvStep (pd_sql SELECT_v_FROM_config_k) [VText k]],
                      cn_db := snd (snd (run [VText k] (pd_sql SELECT_v_FROM_config_k) (cn_db c)))\<rparr>))"
    by (rule cached_step [OF assms(1,2)])
       (use p s valid_config_stmts [OF tb] in \<open>simp_all add: SELECT_v_FROM_config_k_STATEMENT_def\<close>)
  then obtain l where
    r: "r = (if ?res = [] then SQLITE_DONE else SQLITE_ROW)" and res: "res = ?res"
    and t2: "pd_ok t2" "m_transactionCount t2 = m_transactionCount t" "m_context t2 = m_context t"
    and l: "l = [] \<or> l = [EvPrepare SELECT_v_FROM_config_k_STATEMENT]"
    and c2: "m_cobj t2 = Some (c\<lparr>cn_log := cn_log c @ (l @ [EvStep SELECT_v_FROM_config_k_STATEMENT [VText k]])\<rparr>)"
    by (auto simp: run_select [OF tb(1)])
  have val: "dc_sqlite3_get_config t (Some k) def =
               ((case stored_text (cn_db c) k of None \<Rightarrow> def | Some s \<Rightarrow> Some s), t2)"
    using assms(1) p s r res
    by (simp add: dc_sqlite3_get_config_def dc_sqlite3_is_open_def stored_text_find [OF tb(1)]
          strdup_keep_null_def safe_strdup_def split: option.splits)
  from select_log [OF l] val t2 c2 show ?thesis
    by blast
qed

lemma get_config_int_stored:
  assumes "m_cobj t = Some c" and "pd_ok t" and "config_ok (cn_db c)"
  shows "fst (dc_sqlite3_get_config_int t (Some k) d) =
           (case stored_text (cn_db c) k of None \<Rightarrow> d | Some s \<Rightarrow> to_int32 (atol s))"
proof -
  from get_config_stored [OF assms, of k None] obtain t' where
    "dc_sqlite3_get_config t (Some k) None =
       ((case stored_text (cn_db c) k of None \<Rightarrow> None | Some s \<Rightarrow> Some s), t')"
    by blast
  then show ?thesis
    by (simp add: dc_sqlite3_get_config_int_def split: option.splits)
qed

section \<open>Reading integers\<close>

lemma digits_val_no_digit: "cs = [] \<or> \<not> isdigit (hd cs) \<Longrightarrow> digits_val acc cs = acc"
  by (cases cs) auto

lemma to_long_id: "LONG_MIN \<le> x \<Longrightarrow> x \<le> LONG_MAX \<Longrightarrow> to_long x = x"
  by (simp add: to_long_def)

lemma to_long_0 [simp]: "to_long 0 = 0"
  by (simp add: to_long_def LONG_MAX_def LONG_MIN_def)

lemma int32_in_long:
  "- (2 ^ 31) \<le> x \<Longrightarrow> x < 2 ^ 31 \<Longrightarrow> LONG_MIN \<le> (x::int) \<and> x \<le> LONG_MAX"
  by (simp add: LONG_MAX_def LONG_MIN_def)

lemma atol_no_prefix:
  assumes "\<not> has_int_prefix s"
  shows "atol s = 0"
proof (cases "dropWhile isspace s")
  case Nil
  show ?thesis unfolding atol_def Nil by simp
next
  case (Cons c cs)
  show ?thesis
  proof (cases "c = CHR ''-'' \<or> c = CHR ''+''")
    case True
    with assms Cons have "cs = [] \<or> \<not> isdigit (hd cs)"
      by (auto simp: has_int_prefix_def split: list.splits)
    then have "digits_val 0 cs = 0"
      by (rule digits_val_no_digit)
    with True Cons show ?thesis
      by (auto simp: atol_def)
  next
    case False
    with assms Cons have "\<not> isdigit c"
      by (simp add: has_int_prefix_def)
    with False Cons show ?thesis
      by (simp add: atol_def)
  qed
qed

lemma digits_val_foldl:
  "list_all isdigit ds \<Longrightarrow> rest = [] \<or> \<not> isdigit (hd rest) \<Longrightarrow>
     digits_val acc (ds @ rest) = foldl (\<lambda>a c. a * 10 + (of_char c - 48)) acc ds"
proof (induction ds arbitrary: acc)
  case Nil
  then show ?case by (cases rest) auto
next
  case (Cons d ds)
  then show ?case by simp
qed

lemma dropWhile_space:
  "list_all isspace ws \<Longrightarrow> xs = [] \<or> \<not> isspace (hd xs) \<Longrightarrow> dropWhile isspace (ws @ xs) = xs"
  by (induction ws) (cases xs; simp)+

lemma digit_not_space: "isdigit c \<Longrightarrow> \<not> isspace c"
  by (auto simp: isdigit_def isspace_def)

lemma digit_not_sign: "isdigit c \<Longrightarrow> c \<noteq> CHR ''-'' \<and> c \<noteq> CHR ''+''"
  by (auto simp: isdigit_def)

lemma sign_not_space: "\<not> isspace CHR ''-''" "\<not> isspace CHR ''+''"
  by (simp_all add: isspace_def)

lemma atol_prefix:
  assumes "list_all isspace ws" and "sg = [] \<or> sg = ''+'' \<or> sg = ''-''"
    and "ds \<noteq> []" and "list_all isdigit ds" and "rest = [] \<or> \<not> isdigit (hd rest)"
  shows "atol (ws @ sg @ ds @ rest) = to_long (if sg = ''-'' then - dec_value ds else dec_value ds)"
proof -
  from assms(3) obtain d ds' where ds: "ds = d # ds'"
    by (cases ds) auto
  with assms(4) have d: "isdigit d"
    by simp
  have "\<not> isspace (hd (sg @ ds @ rest))"
    using assms(2) d ds by (auto simp: sign_not_space digit_not_space)
  with assms(1) have dw: "dropWhile isspace (ws @ sg @ ds @ rest) = sg @ ds @ rest"
    using dropWhile_space [of ws "sg @ ds @ rest"] ds by simp
  have dv: "digits_val 0 (ds @ rest) = dec_value ds"
    unfolding dec_value_def by (rule digits_val_foldl) (rule assms(4), rule assms(5))
  from assms(2) show ?thesis
  proof (elim disjE)
    assume "sg = []"
    with dw dv ds digit_not_sign [OF d] show ?thesis
      by (simp add: atol_def)
  next
    assume "sg = ''+''"
    with dw dv show ?thesis
      by (simp add: atol_def)
  next
    assume "sg = ''-''"
    with dw dv show ?thesis
      by (simp add: atol_def)
  qed
qed

lemma to_int32_id: "- (2 ^ 31) \<le> x \<Longrightarrow> x < 2 ^ 31 \<Longrightarrow> to_int32 x = x"
  by (simp add: to_int32_def)

lemma store_on_facts:
  "m_cobj (store_on db) = Some \<lparr>cn_db = db, cn_readonly = False, cn_snapshot = None, cn_log = []\<rparr>"
  "pd_ok (store_on db)"
  by (simp_all add: store_on_def dc_sqlite3_new_def pd_ok_def all_pd_idx_def)

lemma find_config_db:
  "find_table (config_db kvs) ''config'' =
     Some \<lparr>tb_cols = config_cols,
           tb_rows = map (\<lambda>(i, k, v). [(''id'', VInt (int i + 1)), (''keyname'', VText k),
                                         (''value'', VText v)])
                         (enumerate 0 kvs)\<rparr>"
  by (simp add: find_table_def config_db_def)

lemmas stored_text_config_db = stored_text_def find_config_db cell_def sqlite3_column_text_def

lemma config_ok_config_db: "config_ok (config_db kvs)"
  by (simp add: config_ok_def find_config_db)

lemma stored_abc: "stored_text (config_db [(''k'', ''abc'')]) ''k'' = Some ''abc''"
  by (simp add: stored_text_config_db)

text \<open>
  Claim C7, as stated, fails: with the text \<open>abc\<close> stored under \<open>k\<close>,
  \<open>dc_sqlite3_get_config_int__\<close> with the default 7 returns 0, not 7.
\<close>

theorem C7_counterexample:
  "fst (dc_sqlite3_get_config_int store_abc (Some ''k'') 7) = 0
   \<and> fst (dc_sqlite3_get_config_int store_abc (Some ''k'') 7) \<noteq> 7"
proof -
  have "\<not> has_int_prefix ''abc''"
    by (simp add: has_int_prefix_def isspace_def isdigit_def)
  then have "atol ''abc'' = 0"
    by (rule atol_no_prefix)
  then have "fst (dc_sqlite3_get_config_int store_abc (Some ''k'') 7) = 0"
    unfolding store_abc_def
    using get_config_int_stored [OF store_on_facts(1) store_on_facts(2),
            of "config_db [(''k'', ''abc'')]" "''k''" 7]
    by (simp add: config_ok_config_db stored_abc to_int32_def)
  then show ?thesis
    by simp
qed

text \<open>
  Claim C7, amended. On an open store with a config table and a consistent cache: when
  no text is stored under the key (no row, or NULL), the default is returned; when the
  stored text has no leading integer prefix, 0 is returned whatever the default; when
  the stored text is white space, an optional sign, a non-empty run of digits and a rest
  that does not start with a digit, and the signed value of the digits lies in the signed
  32-bit range, that value is returned.
\<close>

theorem C7_get_config_int_amended:
  assumes "m_cobj t = Some c" and "pd_ok t" and "config_ok (cn_db c)"
  shows "(stored_text (cn_db c) k = None \<longrightarrow> fst (dc_sqlite3_get_config_int t (Some k) d) = d)
       \<and> (\<forall>s. stored_text (cn_db c) k = Some s \<and> \<not> has_int_prefix s \<longrightarrow>
              fst (dc_sqlite3_get_config_int t (Some k) d) = 0)
       \<and> (\<forall>ws sg ds rest x.
              stored_text (cn_db c) k = Some (ws @ sg @ ds @ rest) \<and> list_all isspace ws
              \<and> (sg = [] \<or> sg = ''+'' \<or> sg = ''-'') \<and> ds \<noteq> [] \<and> list_all isdigit ds
              \<and> (rest = [] \<or> \<not> isdigit (hd rest))
              \<and> x = (if sg = ''-'' then - dec_value ds else dec_value ds)
              \<and> - (2 ^ 31) \<le> x \<and> x < 2 ^ 31 \<longrightarrow>
              fst (dc_sqlite3_get_config_int t (Some k) d) = x)"
proof (intro conjI allI impI)
  assume "stored_text (cn_db c) k = None"
  with get_config_int_stored [OF assms, of k d]
  show "fst (dc_sqlite3_get_config_int t (Some k) d) = d"
    by simp
next
  fix s
  assume "stored_text (cn_db c) k = Some s \<and> \<not> has_int_prefix s"
  with get_config_int_stored [OF assms, of k d]
  show "fst (dc_sqlite3_get_config_int t (Some k) d) = 0"
    by (simp add: atol_no_prefix to_int32_def)
next
  fix ws sg ds rest x
  assume a: "stored_text (cn_db c) k = Some (ws @ sg @ ds @ rest) \<and> list_all isspace ws
              \<and> (sg = [] \<or> sg = ''+'' \<or> sg = ''-'') \<and> ds \<noteq> [] \<and> list_all isdigit ds
              \<and> (rest = [] \<or> \<not> isdigit (hd rest))
              \<and> x = (if sg = ''-'' then - dec_value ds else dec_value ds)
              \<and> - (2 ^ 31) \<le> x \<and> x < 2 ^ 31"
  then have "atol (ws @ sg @ ds @ rest) = to_long x"
    using atol_prefix [of ws sg ds rest] by simp
  also have "\<dots> = x"
    using a int32_in_long [of x] by (simp add: to_long_id)
  finally have "to_int32 (atol (ws @ sg @ ds @ rest)) = x"
    using a by (simp add: to_int32_id)
  with a get_config_int_stored [OF assms, of k d]
  show "fst (dc_sqlite3_get_config_int t (Some k) d) = x"
    by simp
qed

theorem C7_get_config_int_amended_witness:
  "m_cobj (store_on (config_db [(''k'', '' -12x'')]))
     = Some \<lparr>cn_db = config_db [(''k'', '' -12x'')], cn_readonly = False,
             cn_snapshot = None, cn_log = []\<rparr>
   \<and> pd_ok (store_on (config_db [(''k'', '' -12x'')]))
   \<and> config_ok (config_db [(''k'', '' -12x'')])
   \<and> stored_text (config_db [(''k'', '' -12x'')]) ''k'' = Some ('' '' @ ''-'' @ ''12'' @ ''x'')
   \<and> fst (dc_sqlite3_get_config_int (store_on (config_db [(''k'', '' -12x'')])) (Some ''k'') 7) = -12
   \<and> stored_text (config_db [(''k'', '' -12x'')]) ''j'' = None
   \<and> fst (dc_sqlite3_get_config_int (store_on (config_db [(''k'', '' -12x'')])) (Some ''j'') 7) = 7"
proof -
  let ?db = "config_db [(''k'', '' -12x'')]"
  let ?c = "\<lparr>cn_db = ?db, cn_readonly = False, cn_snapshot = None, cn_log = []\<rparr>"
  have h1: "m_cobj (store_on ?db) = Some ?c"
    by (rule store_on_facts)
  have h2: "pd_ok (store_on ?db)"
    by (rule store_on_facts)
  have h3: "config_ok (cn_db ?c)"
    by (simp add: config_ok_config_db)
  have s1: "stored_text (cn_db ?c) ''k'' = Some ('' '' @ ''-'' @ ''12'' @ ''x'')"
    by (simp add: stored_text_config_db)
  have s2: "stored_text (cn_db ?c) ''j'' = None"
    by (simp add: stored_text_config_db)
  have side: "list_all isspace '' ''" "list_all isdigit ''12''" "\<not> isdigit (hd ''x'')"
    "dec_value ''12'' = 12"
    by (simp_all add: isspace_def isdigit_def dec_value_def)
  from C7_get_config_int_amended [OF h1 h2 h3, of "''k''" 7]
  have "stored_text (cn_db ?c) ''k'' = Some ('' '' @ ''-'' @ ''12'' @ ''x'') \<and> list_all isspace '' ''
          \<and> (''-'' = [] \<or> ''-'' = ''+'' \<or> ''-'' = ''-'') \<and> ''12'' \<noteq> [] \<and> list_all isdigit ''12''
          \<and> (''x'' = [] \<or> \<not> isdigit (hd ''x''))
          \<and> (-12) = (if ''-'' = ''-'' then - dec_value ''12'' else dec_value ''12'')
          \<and> - (2 ^ 31) \<le> (-12::int) \<and> (-12::int) < 2 ^ 31 \<longrightarrow>
        fst (dc_sqlite3_get_config_int (store_on ?db) (Some ''k'') 7) = -12"
    by blast
  with s1 side have a: "fst (dc_sqlite3_get_config_int (store_on ?db) (Some ''k'') 7) = -12"
    by simp
  from C7_get_config_int_amended [OF h1 h2 h3, of "''j''" 7] s2
  have b: "fst (dc_sqlite3_get_config_int (store_on ?db) (Some ''j'') 7) = 7"
    by blast
  from h1 h2 h3 s1 s2 a b show ?thesis
    by simp
qed

section \<open>Writing the config store\<close>

lemma cached_logs:
  "l = [] \<or> l = [EvPrepare INSERT_INTO_config_kv_STATEMENT] \<Longrightarrow>
     submitted (l @ [EvStep INSERT_INTO_config_kv_STATEMENT [VText k, VText v]]) = []
     \<and> config_writes (l @ [EvStep INSERT_INTO_config_kv_STATEMENT [VText k, VText v]]) = [(k, v)]"
  "l = [] \<or> l = [EvPrepare UPDATE_config_vk_STATEMENT] \<Longrightarrow>
     submitted (l @ [EvStep UPDATE_config_vk_STATEMENT [VText v, VText k]]) = []
     \<and> config_writes (l @ [EvStep UPDATE_config_vk_STATEMENT [VText v, VText k]]) = [(k, v)]"
  "l = [] \<or> l = [EvPrepare DELETE_FROM_config_k_STATEMENT] \<Longrightarrow>
     submitted (l @ [EvStep DELETE_FROM_config_k_STATEMENT [VText k]]) = []
     \<and> config_writes (l @ [EvStep DELETE_FROM_config_k_STATEMENT [VText k]]) = []"
  by (auto simp: all_pd_idx_def INSERT_INTO_config_kv_STATEMENT_def UPDATE_config_vk_STATEMENT_def)

lemma stage_select:
  assumes "m_cobj t = Some c" and "pd_ok t"
    and "find_table (cn_db c) ''config'' = Some tb" and "tb_cols tb = config_cols"
    and "dc_sqlite3_predefine t SELECT_v_FROM_config_k (Some SELECT_v_FROM_config_k_STATEMENT)
           = (stmt, t1)"
    and "step_stmt t1 stmt [VText k] = (r, res, t2)"
  shows "r = (if filter (\<lambda>r. cell r ''keyname'' = VText k) (tb_rows tb) = []
              then SQLITE_DONE else SQLITE_ROW)
       \<and> res = map (\<lambda>r. cell r ''value'') (filter (\<lambda>r. cell r ''keyname'' = VText k) (tb_rows tb))
       \<and> pd_ok t2 \<and> m_transactionCount t2 = m_transactionCount t \<and> m_context t2 = m_context t
       \<and> (\<exists>l. m_cobj t2 = Some (c\<lparr>cn_log := cn_log c @ l\<rparr>)
               \<and> submitted l = [] \<and> config_writes l = [])"
proof -
  have "r = fst (run [VText k] (pd_sql SELECT_v_FROM_config_k) (cn_db c))
         \<and> res = fst (snd (run [VText k] (pd_sql SELECT_v_FROM_config_k) (cn_db c)))
         \<and> pd_ok t2 \<and> m_transactionCount t2 = m_transactionCount t \<and> m_context t2 = m_context t
         \<and> (\<exists>l. (l = [] \<or> l = [EvPrepare (pd_sql SELECT_v_FROM_config_k)])
               \<and> m_cobj t2 = Some (c\<lparr>cn_log := cn_log c @ l @ [EvStep (pd_sql SELECT_v_FROM_config_k) [VText k]],
                      cn_db := snd (snd (run [VText k] (pd_sql SELECT_v_FROM_config_k) (cn_db c)))\<rparr>))"
    by (rule cached_step [OF assms(1,2)])
       (use assms(5,6) valid_config_stmts [OF assms(3,4)] in
         \<open>simp_all add: SELECT_v_FROM_config_k_STATEMENT_def\<close>)
  then obtain l where
    a: "r = (if filter (\<lambda>r. cell r ''keyname'' = VText k) (tb_rows tb) = []
             then SQLITE_DONE else SQLITE_ROW)"
       "res = map (\<lambda>r. cell r ''value'') (filter (\<lambda>r. cell r ''keyname'' = VText k) (tb_rows tb))"
       "pd_ok t2" "m_transactionCount t2 = m_transactionCount t" "m_context t2 = m_context t"
    and l: "l = [] \<or> l = [EvPrepare SELECT_v_FROM_config_k_STATEMENT]"
    and c2: "m_cobj t2 = Some (c\<lparr>cn_log := cn_log c @ (l @ [EvStep SELECT_v_FROM_config_k_STATEMENT [VText k]])\<rparr>)"
    by (auto simp: run_select [OF assms(3)])
  from select_log [OF l] a c2 show ?thesis
    by blast
qed

lemma stage_insert:
  assumes "m_cobj t = Some c" and "pd_ok t" and "\<not> cn_readonly c"
    and "find_table (cn_db c) ''config'' = Some tb" and "tb_cols tb = config_cols"
    and "dc_sqlite3_predefine t INSERT_INTO_config_kv (Some INSERT_INTO_config_kv_STATEMENT)
           = (stmt, t1)"
    and "step_stmt t1 stmt [VText k, VText v] = (r, res, t2)"
  shows "r = SQLITE_DONE
       \<and> pd_ok t2 \<and> m_transactionCount t2 = m_transactionCount t \<and> m_context t2 = m_context t
       \<and> (\<exists>l. m_cobj t2 = Some (c\<lparr>cn_log := cn_log c @ l,
                 cn_db := put_table ''config''
                   (tb\<lparr>tb_rows := tb_rows tb @
                      [[(''id'', VInt (next_rowid (Some ''id'') (tb_rows tb))),
                        (''keyname'', VText k), (''value'', VText v)]]\<rparr>) (cn_db c)\<rparr>)
               \<and> submitted l = [] \<and> config_writes l = [(k, v)])"
proof -
  have "r = fst (run [VText k, VText v] (pd_sql INSERT_INTO_config_kv) (cn_db c))
         \<and> res = fst (snd (run [VText k, VText v] (pd_sql INSERT_INTO_config_kv) (cn_db c)))
         \<and> pd_ok t2 \<and> m_transactionCount t2 = m_transactionCount t \<and> m_context t2 = m_context t
         \<and> (\<exists>l. (l = [] \<or> l = [EvPrepare (pd_sql INSERT_INTO_config_kv)])
               \<and> m_cobj t2 = Some (c\<lparr>cn_log := cn_log c @ l @ [EvStep (pd_sql INSERT_INTO_config_kv) [VText k, VText v]],
                      cn_db := snd (snd (run [VText k, VText v] (pd_sql INSERT_INTO_config_kv) (cn_db c)))\<rparr>))"
    by (rule cached_step [OF assms(1,2)])
       (use assms(3,6,7) valid_config_stmts [OF assms(4,5)] in
         \<open>simp_all add: INSERT_INTO_config_kv_STATEMENT_def\<close>)
  then obtain l where
    a: "r = SQLITE_DONE"
       "pd_ok t2" "m_transactionCount t2 = m_transactionCount t" "m_context t2 = m_context t"
    and l: "l = [] \<or> l = [EvPrepare INSERT_INTO_config_kv_STATEMENT]"
    and c2: "m_cobj t2 = Some (c\<lparr>cn_log := cn_log c @ (l @ [EvStep INSERT_INTO_config_kv_STATEMENT [VText k, VText v]]),
                 cn_db := put_table ''config''
                   (tb\<lparr>tb_rows := tb_rows tb @
                      [[(''id'', VInt (next_rowid (Some ''id'') (tb_rows tb))),
                        (''keyname'', VText k), (''value'', VText v)]]\<rparr>) (cn_db c)\<rparr>)"
    by (auto simp: run_insert [OF assms(4,5)])
  from cached_logs(1) [OF l] a c2 show ?thesis
    by blast
qed

lemma stage_update:
  assumes "m_cobj t = Some c" and "pd_ok t" and "\<not> cn_readonly c"
    and "find_table (cn_db c) ''config'' = Some tb" and "tb_cols tb = config_cols"
    and "dc_sqlite3_predefine t UPDATE_config_vk (Some UPDATE_config_vk_STATEMENT) = (stmt, t1)"
    and "step_stmt t1 stmt [VText v, VText k] = (r, res, t2)"
  shows "r = SQLITE_DONE
       \<and> pd_ok t2 \<and> m_transactionCount t2 = m_transactionCount t \<and> m_context t2 = m_context t
       \<and> (\<exists>l. m_cobj t2 = Some (c\<lparr>cn_log := cn_log c @ l,
                 cn_db := put_table ''config''
                   (tb\<lparr>tb_rows := map (\<lambda>r. if cell r ''keyname'' = VText k
                                             then AList.update ''value'' (VText v) r else r)
                                       (tb_rows tb)\<rparr>) (cn_db c)\<rparr>)
               \<and> submitted l = [] \<and> config_writes l = [(k, v)])"
proof -
  have "r = fst (run [VText v, VText k] (pd_sql UPDATE_config_vk) (cn_db c))
         \<and> res = fst (snd (run [VText v, VText k] (pd_sql UPDATE_config_vk) (cn_db c)))
         \<and> pd_ok t2 \<and> m_transactionCount t2 = m_transactionCount t \<and> m_context t2 = m_context t
         \<and> (\<exists>l. (l = [] \<or> l = [EvPrepare (pd_sql UPDATE_config_vk)])
               \<and> m_cobj t2 = Some (c\<lparr>cn_log := cn_log c @ l @ [EvStep (pd_sql UPDATE_config_vk) [VText v, VText k]],
                      cn_db := snd (snd (run [VText v, VText k] (pd_sql UPDATE_config_vk) (cn_db c)))\<rparr>))"
    by (rule cached_step [OF assms(1,2)])
       (use assms(3,6,7) valid_config_stmts [OF assms(4,5)] in
         \<open>simp_all add: UPDATE_config_vk_STATEMENT_def\<close>)
  then obtain l where
    a: "r = SQLITE_DONE"
       "pd_ok t2" "m_transactionCount t2 = m_transactionCount t" "m_context t2 = m_context t"
    and l: "l = [] \<or> l = [EvPrepare UPDATE_config_vk_STATEMENT]"
    and c2: "m_cobj t2 = Some (c\<lparr>cn_log := cn_log c @ (l @ [EvStep UPDATE_config_vk_STATEMENT [VText v, VText k]]),
                 cn_db := put_table ''config''
                   (tb\<lparr>tb_rows := map (\<lambda>r. if cell r ''keyname'' = VText k
                                             then AList.update ''value'' (VText v) r else r)
                                       (tb_rows tb)\<rparr>) (cn_db c)\<rparr>)"
    by (auto simp: run_update [OF assms(4)])
  from cached_logs(2) [OF l] a c2 show ?thesis
    by blast
qed

lemma stage_delete:
  assumes "m_cobj t = Some c" and "pd_ok t" and "\<not> cn_readonly c"
    and "find_table (cn_db c) ''config'' = Some tb" and "tb_cols tb = config_cols"
    and "dc_sqlite3_predefine t DELETE_FROM_config_k (Some DELETE_FROM_config_k_STATEMENT) = (stmt, t1)"
    and "step_stmt t1 stmt [VText k] = (r, res, t2)"
  shows "r = SQLITE_DONE
       \<and> pd_ok t2 \<and> m_transactionCount t2 = m_transactionCount t \<and> m_context t2 = m_context t
       \<and> (\<exists>l. m_cobj t2 = Some (c\<lparr>cn_log := cn_log c @ l,
                 cn_db := put_table ''config''
                   (tb\<lparr>tb_rows := filter (\<lambda>r. cell r ''keyname'' \<noteq> VText k) (tb_rows tb)\<rparr>)
                   (cn_db c)\<rparr>)
               \<and> submitted l = [] \<and> config_writes l = [])"
proof -
  have "r = fst (run [VText k] (pd_sql DELETE_FROM_config_k) (cn_db c))
         \<and> res = fst (snd (run [VText k] (pd_sql DELETE_FROM_config_k) (cn_db c)))
         \<and> pd_ok t2 \<and> m_transactionCount t2 = m_transactionCount t \<and> m_context t2 = m_context t
         \<and> (\<exists>l. (l = [] \<or> l = [EvPrepare (pd_sql DELETE_FROM_config_k)])
               \<and> m_cobj t2 = Some (c\<lparr>cn_log := cn_log c @ l @ [EvStep (pd_sql DELETE_FROM_config_k) [VText k]],
                      cn_db := snd (snd (run [VText k] (pd_sql DELETE_FROM_config_k) (cn_db c)))\<rparr>))"
    by (rule cached_step [OF assms(1,2)])
       (use assms(3,6,7) valid_config_stmts [OF assms(4,5)] in
         \<open>simp_all add: DELETE_FROM_config_k_STATEMENT_def\<close>)
  then obtain l where
    a: "r = SQLITE_DONE"
       "pd_ok t2" "m_transactionCount t2 = m_transactionCount t" "m_context t2 = m_context t"
    and l: "l = [] \<or> l = [EvPrepare DELETE_FROM_config_k_STATEMENT]"
    and c2: "m_cobj t2 = Some (c\<lparr>cn_log := cn_log c @ (l @ [EvStep DELETE_FROM_config_k_STATEMENT [VText k]]),
                 cn_db := put_table ''config''
                   (tb\<lparr>tb_rows := filter (\<lambda>r. cell r ''keyname'' \<noteq> VText k) (tb_rows tb)\<rparr>)
                   (cn_db c)\<rparr>)"
    by (auto simp: run_delete [OF assms(4)])
  from cached_logs(3) [OF l] a c2 show ?thesis
    by blast
qed

lemma config_ok_put:
  "find_table db ''config'' = Some tb0 \<Longrightarrow> tb_cols tb = config_cols \<Longrightarrow>
     config_ok (put_table ''config'' tb db)"
  by (simp add: config_ok_def find_put_table)

lemma stored_after_insert:
  assumes "filter (\<lambda>r. cell r ''keyname'' = VText k) rows = []"
    and "find_table db ''config'' = Some tb0"
  shows "stored_text (put_table ''config''
            (tb\<lparr>tb_rows := rows @ [[(''id'', i), (''keyname'', VText k), (''value'', VText v)]]\<rparr>) db) k
         = Some v"
  using assms
  by (simp add: stored_text_def find_put_table cell_def sqlite3_column_text_def)

lemma stored_after_update:
  assumes "filter (\<lambda>r. cell r ''keyname'' = VText k) rows \<noteq> []"
    and "find_table db ''config'' = Some tb0"
  shows "stored_text (put_table ''config''
            (tb\<lparr>tb_rows := map (\<lambda>r. if cell r ''keyname'' = VText k
                                      then AList.update ''value'' (VText v) r else r) rows\<rparr>) db) k
         = Some v"
proof -
  let ?m = "\<lambda>r. cell r ''keyname'' = VText k"
  let ?u = "\<lambda>r. if ?m r then AList.update ''value'' (VText v) r else r"
  have "filter ?m (map ?u rows) = map (AList.update ''value'' (VText v)) (filter ?m rows)"
    by (induction rows) (simp_all add: cell_update)
  then have "map (\<lambda>r. cell r ''value'') (filter ?m (map ?u rows))
               = map (\<lambda>r. VText v) (filter ?m rows)"
    by (simp add: cell_update o_def)
  with assms show ?thesis
    by (cases "filter ?m rows")
       (simp_all add: stored_text_def find_put_table sqlite3_column_text_def)
qed

lemma stored_after_delete:
  assumes "find_table db ''config'' = Some tb0"
  shows "stored_text (put_table ''config''
      (tb\<lparr>tb_rows := filter (\<lambda>r. cell r ''keyname'' \<noteq> VText k) rows\<rparr>) db) k = None"
proof -
  have "filter (\<lambda>r. cell r ''keyname'' = VText k) (filter (\<lambda>r. cell r ''keyname'' \<noteq> VText k) rows) = []"
    by (induction rows) simp_all
  then show ?thesis
    using assms by (simp add: stored_text_def find_put_table)
qed

text \<open>
  Writing a value on a writable store with a config table succeeds; afterwards the value
  is stored under the key, nothing but the config table has changed, and the log has
  gained one config write and no one-shot statement.
\<close>

lemma set_config_value:
  assumes "m_cobj t = Some c" and "pd_ok t" and "config_ok (cn_db c)" and "\<not> cn_readonly c"
  shows "\<exists>t' db' l. dc_sqlite3_set_config t (Some k) (Some v) = (1, t')
           \<and> pd_ok t' \<and> m_cobj t' = Some (c\<lparr>cn_log := cn_log c @ l, cn_db := db'\<rparr>)
           \<and> config_ok db' \<and> stored_text db' k = Some v
           \<and> (\<forall>T. name_key T \<noteq> ''config'' \<longrightarrow> find_table db' T = find_table (cn_db c) T)
           \<and> db_indexes db' = db_indexes (cn_db c)
           \<and> submitted l = [] \<and> config_writes l = [(k, v)]
           \<and> m_transactionCount t' = m_transactionCount t \<and> m_context t' = m_context t"
proof -
  from assms(3) obtain tb where tb: "find_table (cn_db c) ''config'' = Some tb"
    "tb_cols tb = config_cols"
    by (rule config_okE)
  let ?m = "\<lambda>r. cell r ''keyname'' = VText k"
  obtain stmt t1 where p1: "dc_sqlite3_predefine t SELECT_v_FROM_config_k
                             (Some SELECT_v_FROM_config_k_STATEMENT) = (stmt, t1)"
    by fastforce
  obtain r res t2 where s1: "step_stmt t1 stmt [VText k] = (r, res, t2)"
    by (metis prod_cases3)
  from stage_select [OF assms(1,2) tb p1 s1] obtain l1 where
    r: "r = (if filter ?m (tb_rows tb) = [] then SQLITE_DONE else SQLITE_ROW)"
    and t2: "pd_ok t2" "m_transactionCount t2 = m_transactionCount t" "m_context t2 = m_context t"
    and c2: "m_cobj t2 = Some (c\<lparr>cn_log := cn_log c @ l1\<rparr>)"
    and l1: "submitted l1 = []" "config_writes l1 = []"
    by blast
  let ?c2 = "c\<lparr>cn_log := cn_log c @ l1\<rparr>"
  have ro2: "\<not> cn_readonly ?c2" and tb2: "find_table (cn_db ?c2) ''config'' = Some tb"
    using assms(4) tb(1) by simp_all
  have open1: "dc_sqlite3_is_open (Some t) \<noteq> 0"
    using assms(1) by (simp add: dc_sqlite3_is_open_def)
  show ?thesis
  proof (cases "filter ?m (tb_rows tb) = []")
    case True
    obtain stmt' t3 where p2: "dc_sqlite3_predefine t2 INSERT_INTO_config_kv
                             (Some INSERT_INTO_config_kv_STATEMENT) = (stmt', t3)"
      by fastforce
    obtain r' res' t4 where s2: "step_stmt t3 stmt' [VText k, VText v] = (r', res', t4)"
      by (metis prod_cases3)
    let ?db = "put_table ''config''
                   (tb\<lparr>tb_rows := tb_rows tb @
                      [[(''id'', VInt (next_rowid (Some ''id'') (tb_rows tb))),
                        (''keyname'', VText k), (''value'', VText v)]]\<rparr>) (cn_db c)"
    from stage_insert [OF c2 t2(1) ro2 tb2 tb(2) p2 s2] obtain l2 where
      r': "r' = SQLITE_DONE"
      and t4: "pd_ok t4" "m_transactionCount t4 = m_transactionCount t2" "m_context t4 = m_context t2"
      and c4: "m_cobj t4 = Some (c\<lparr>cn_log := cn_log c @ (l1 @ l2), cn_db := ?db\<rparr>)"
      and l2: "submitted l2 = []" "config_writes l2 = [(k, v)]"
      by auto
    have res: "dc_sqlite3_set_config t (Some k) (Some v) = (1, t4)"
      using open1 p1 s1 r True p2 s2 r'
      by (simp add: dc_sqlite3_set_config_def set_config_done_def)
    have "config_ok ?db" "stored_text ?db k = Some v"
      "\<forall>T. name_key T \<noteq> ''config'' \<longrightarrow> find_table ?db T = find_table (cn_db c) T"
      "db_indexes ?db = db_indexes (cn_db c)"
      using tb True
      by (simp_all add: config_ok_put [OF tb(1)] stored_after_insert [OF _ tb(1)] find_put_table)
    moreover have "submitted (l1 @ l2) = []" "config_writes (l1 @ l2) = [(k, v)]"
      using l1 l2 by (simp_all add: submitted_append config_writes_append)
    ultimately show ?thesis
      by (intro exI [of _ t4] exI [of _ ?db] exI [of _ "l1 @ l2"]) (use res t4 t2 c4 in simp)
  next
    case False
    obtain stmt' t3 where p2: "dc_sqlite3_predefine t2 UPDATE_config_vk
                             (Some UPDATE_config_vk_STATEMENT) = (stmt', t3)"
      by fastforce
    obtain r' res' t4 where s2: "step_stmt t3 stmt' [VText v, VText k] = (r', res', t4)"
      by (metis prod_cases3)
    let ?db = "put_table ''config''
                   (tb\<lparr>tb_rows := map (\<lambda>r. if cell r ''keyname'' = VText k
                                             then AList.update ''value'' (VText v) r else r)
                                       (tb_rows tb)\<rparr>) (cn_db c)"
    from stage_update [OF c2 t2(1) ro2 tb2 tb(2) p2 s2] obtain l2 where
      r': "r' = SQLITE_DONE"
      and t4: "pd_ok t4" "m_transactionCount t4 = m_transactionCount t2" "m_context t4 = m_context t2"
      and c4: "m_cobj t4 = Some (c\<lparr>cn_log := cn_log c @ (l1 @ l2), cn_db := ?db\<rparr>)"
      and l2: "submitted l2 = []" "config_writes l2 = [(k, v)]"
      by auto
    have res: "dc_sqlite3_set_config t (Some k) (Some v) = (1, t4)"
      using open1 p1 s1 r False p2 s2 r'
      by (simp add: dc_sqlite3_set_config_def set_config_done_def)
    have "config_ok ?db" "stored_text ?db k = Some v"
      "\<forall>T. name_key T \<noteq> ''config'' \<longrightarrow> find_table ?db T = find_table (cn_db c) T"
      "db_indexes ?db = db_indexes (cn_db c)"
      using tb False
      by (simp_all add: config_ok_put [OF tb(1)] stored_after_update [OF _ tb(1)] find_put_table)
    moreover have "submitted (l1 @ l2) = []" "config_writes (l1 @ l2) = [(k, v)]"
      using l1 l2 by (simp_all add: submitted_append config_writes_append)
    ultimately show ?thesis
      by (intro exI [of _ t4] exI [of _ ?db] exI [of _ "l1 @ l2"]) (use res t4 t2 c4 in simp)
  qed
qed

lemma set_config_delete:
  assumes "m_cobj t = Some c" and "pd_ok t" and "config_ok (cn_db c)" and "\<not> cn_readonly c"
  shows "\<exists>t' db' l. dc_sqlite3_set_config t (Some k) None = (1, t')
           \<and> pd_ok t' \<and> m_cobj t' = Some (c\<lparr>cn_log := cn_log c @ l, cn_db := db'\<rparr>)
           \<and> config_ok db' \<and> stored_text db' k = None
           \<and> (\<forall>T. name_key T \<noteq> ''config'' \<longrightarrow> find_table db' T = find_table (cn_db c) T)
           \<and> db_indexes db' = db_indexes (cn_db c)
           \<and> submitted l = [] \<and> config_writes l = []
           \<and> m_transactionCount t' = m_transactionCount t \<and> m_context t' = m_context t"
proof -
  from assms(3) obtain tb where tb: "find_table (cn_db c) ''config'' = Some tb"
    "tb_cols tb = config_cols"
    by (rule config_okE)
  obtain stmt t1 where p1: "dc_sqlite3_predefine t DELETE_FROM_config_k
                             (Some DELETE_FROM_config_k_STATEMENT) = (stmt, t1)"
    by fastforce
  obtain r res t2 where s1: "step_stmt t1 stmt [VText k] = (r, res, t2)"
    by (metis prod_cases3)
  let ?db = "put_table ''config''
               (tb\<lparr>tb_rows := filter (\<lambda>r. cell r ''keyname'' \<noteq> VText k) (tb_rows tb)\<rparr>) (cn_db c)"
  from stage_delete [OF assms(1,2,4) tb p1 s1] obtain l where
    r: "r = SQLITE_DONE"
    and t2: "pd_ok t2" "m_transactionCount t2 = m_transactionCount t" "m_context t2 = m_context t"
    and c2: "m_cobj t2 = Some (c\<lparr>cn_log := cn_log c @ l, cn_db := ?db\<rparr>)"
    and l: "submitted l = []" "config_writes l = []"
    by blast
  have open1: "dc_sqlite3_is_open (Some t) \<noteq> 0"
    using assms(1) by (simp add: dc_sqlite3_is_open_def)
  have res: "dc_sqlite3_set_config t (Some k) None = (1, t2)"
    using open1 p1 s1 r by (simp add: dc_sqlite3_set_config_def set_config_done_def)
  have "config_ok ?db" "stored_text ?db k = None"
    "\<forall>T. name_key T \<noteq> ''config'' \<longrightarrow> find_table ?db T = find_table (cn_db c) T"
    "db_indexes ?db = db_indexes (cn_db c)"
    using tb
    by (simp_all add: config_ok_put [OF tb(1)] stored_after_delete [OF tb(1)] find_put_table)
  then show ?thesis
    by (intro exI [of _ t2] exI [of _ ?db] exI [of _ l]) (use res t2 c2 l in simp)
qed

section \<open>Round trips through the config store\<close>

lemma store_readyE:
  assumes "store_ready t"
  obtains c where "m_cobj t = Some c" and "pd_ok t" and "config_ok (cn_db c)" and "\<not> cn_readonly c"
  using assms by (auto simp: store_ready_def split: option.splits)

lemma store_readyI:
  "m_cobj t = Some c \<Longrightarrow> pd_ok t \<Longrightarrow> config_ok (cn_db c) \<Longrightarrow> \<not> cn_readonly c \<Longrightarrow> store_ready t"
  by (simp add: store_ready_def)

lemma store_ready_store_on: "config_ok db \<Longrightarrow> store_ready (store_on db)"
  by (rule store_readyI [OF store_on_facts]) simp_all

lemma set_then_get:
  assumes "store_ready t"
  shows "\<exists>t1. dc_sqlite3_set_config t (Some k) (Some v) = (1, t1) \<and> store_ready t1
              \<and> fst (dc_sqlite3_get_config t1 (Some k) def) = Some v"
proof -
  from assms obtain c where c: "m_cobj t = Some c" "pd_ok t" "config_ok (cn_db c)" "\<not> cn_readonly c"
    by (rule store_readyE)
  from set_config_value [OF c, of k v] obtain t1 db' l where
    s: "dc_sqlite3_set_config t (Some k) (Some v) = (1, t1)" "pd_ok t1"
       "m_cobj t1 = Some (c\<lparr>cn_log := cn_log c @ l, cn_db := db'\<rparr>)"
       "config_ok db'" "stored_text db' k = Some v"
    by blast
  let ?c1 = "c\<lparr>cn_log := cn_log c @ l, cn_db := db'\<rparr>"
  have ok: "config_ok (cn_db ?c1)" and ro: "\<not> cn_readonly ?c1"
    using s(4) c(4) by simp_all
  from get_config_stored [OF s(3) s(2) ok, of k def] s(5)
  have "fst (dc_sqlite3_get_config t1 (Some k) def) = Some v"
    by auto
  moreover have "store_ready t1"
    by (rule store_readyI [OF s(3) s(2) ok ro])
  ultimately show ?thesis
    using s(1) by simp
qed

lemma delete_then_get:
  assumes "store_ready t"
  shows "\<exists>t1. dc_sqlite3_set_config t (Some k) None = (1, t1) \<and> store_ready t1
              \<and> fst (dc_sqlite3_get_config t1 (Some k) def) = def"
proof -
  from assms obtain c where c: "m_cobj t = Some c" "pd_ok t" "config_ok (cn_db c)" "\<not> cn_readonly c"
    by (rule store_readyE)
  from set_config_delete [OF c, of k] obtain t1 db' l where
    s: "dc_sqlite3_set_config t (Some k) None = (1, t1)" "pd_ok t1"
       "m_cobj t1 = Some (c\<lparr>cn_log := cn_log c @ l, cn_db := db'\<rparr>)"
       "config_ok db'" "stored_text db' k = None"
    by blast
  let ?c1 = "c\<lparr>cn_log := cn_log c @ l, cn_db := db'\<rparr>"
  have ok: "config_ok (cn_db ?c1)" and ro: "\<not> cn_readonly ?c1"
    using s(4) c(4) by simp_all
  from get_config_stored [OF s(3) s(2) ok, of k def] s(5)
  have "fst (dc_sqlite3_get_config t1 (Some k) def) = def"
    by auto
  moreover have "store_ready t1"
    by (rule store_readyI [OF s(3) s(2) ok ro])
  ultimately show ?thesis
    using s(1) by simp
qed

text \<open>
  Claim C4. On a store as a read-write open leaves it (connected, writable, with a config
  table and a consistent cache), for every key \<open>k\<close> and text \<open>v\<close>: \<open>set_config(k, v)\<close>
  succeeds and a following \<open>get_config(k, def)\<close> returns \<open>v\<close> for every default, whether
  or not \<open>k\<close> was present; \<open>set_config(k, absent)\<close> succeeds and a following
  \<open>get_config(k, x)\<close> returns \<open>x\<close>. Both leave the store in the same condition, so the
  calls can be chained.
\<close>

theorem C4_set_get_config:
  assumes "store_ready t"
  shows "(\<exists>t1. dc_sqlite3_set_config t (Some k) (Some v) = (1, t1) \<and> store_ready t1
              \<and> fst (dc_sqlite3_get_config t1 (Some k) def) = Some v)
       \<and> (\<exists>t1. dc_sqlite3_set_config t (Some k) None = (1, t1) \<and> store_ready t1
              \<and> fst (dc_sqlite3_get_config t1 (Some k) (Some x)) = Some x)"
  using set_then_get [OF assms] delete_then_get [OF assms] by blast

theorem C4_set_get_config_witness:
  "store_ready (store_on (config_db [(''k'', ''v0'')]))
   \<and> (\<exists>t1. dc_sqlite3_set_config (store_on (config_db [(''k'', ''v0'')])) (Some ''k'') (Some ''v1'')
               = (1, t1)
          \<and> store_ready t1 \<and> fst (dc_sqlite3_get_config t1 (Some ''k'') (Some ''other'')) = Some ''v1'')
   \<and> (\<exists>t1. dc_sqlite3_set_config (store_on (config_db [(''k'', ''v0'')])) (Some ''k'') None = (1, t1)
          \<and> store_ready t1 \<and> fst (dc_sqlite3_get_config t1 (Some ''k'') (Some ''x'')) = Some ''x'')"
proof -
  have h: "store_ready (store_on (config_db [(''k'', ''v0'')]))"
    by (rule store_ready_store_on) (rule config_ok_config_db)
  from C4_set_get_config [OF h, of "''k''" "''v1''" "Some ''other''" "''x''"] h show ?thesis
    by blast
qed

lemma nat_dec_nonempty: "nat_dec n \<noteq> []"
  by (subst nat_dec.simps) simp

lemma isdigit_char_of: "d < 10 \<Longrightarrow> isdigit (char_of (48 + d :: nat))"
  by (simp add: isdigit_def)

lemma nat_dec_digits: "list_all isdigit (nat_dec n)"
proof (induction n rule: nat_dec.induct)
  case (1 n)
  show ?case
  proof (cases "n < 10")
    case True
    then show ?thesis
      by (subst nat_dec.simps) (simp add: isdigit_char_of)
  next
    case False
    with 1 show ?thesis
      by (subst nat_dec.simps) (simp add: isdigit_char_of)
  qed
qed

lemma dec_value_snoc: "dec_value (ds @ [c]) = dec_value ds * 10 + (of_char c - 48)"
  by (simp add: dec_value_def)

lemma of_char_digit: "d < 10 \<Longrightarrow> (of_char (char_of (48 + d :: nat)) :: int) - 48 = int d"
proof -
  assume d: "d < 10"
  have "(of_char (char_of (48 + d)) :: int) = int (of_char (char_of (48 + d)))"
    by (simp only: of_nat_of_char)
  also have "\<dots> = int ((48 + d) mod 256)"
    by (simp only: of_char_of)
  also have "\<dots> = 48 + int d"
    using d by simp
  finally show ?thesis
    by simp
qed

lemma dec_value_nat_dec: "dec_value (nat_dec n) = int n"
proof (induction n rule: nat_dec.induct)
  case (1 n)
  show ?case
  proof (cases "n < 10")
    case True
    then show ?thesis
      using of_char_digit [of n]
      by (subst nat_dec.simps) (simp add: dec_value_def)
  next
    case False
    with 1 have "dec_value (nat_dec (n div 10)) = int (n div 10)"
      by simp
    with False show ?thesis
      using of_char_digit [of "n mod 10"]
      by (subst nat_dec.simps) (simp add: dec_value_snoc zdiv_int zmod_int)
  qed
qed

lemma atol_int_dec:
  assumes "LONG_MIN \<le> v" and "v \<le> LONG_MAX"
  shows "atol (int_dec v) = v"
proof (cases "v < 0")
  case True
  have "atol ([] @ ''-'' @ nat_dec (nat (- v)) @ []) =
          to_long (if ''-'' = ''-'' then - dec_value (nat_dec (nat (- v)))
                   else dec_value (nat_dec (nat (- v))))"
    by (rule atol_prefix) (simp_all add: nat_dec_nonempty nat_dec_digits)
  with True show ?thesis
    by (simp add: int_dec_def dec_value_nat_dec to_long_id [OF assms])
next
  case False
  have "atol ([] @ [] @ nat_dec (nat v) @ []) =
          to_long (if [] = ''-'' then - dec_value (nat_dec (nat v)) else dec_value (nat_dec (nat v)))"
    by (rule atol_prefix) (simp_all add: nat_dec_nonempty nat_dec_digits)
  with False show ?thesis
    by (simp add: int_dec_def dec_value_nat_dec to_long_id [OF assms])
qed

lemma atol_int_dec32: "- (2 ^ 31) \<le> v \<Longrightarrow> v < 2 ^ 31 \<Longrightarrow> atol (int_dec v) = v"
  using int32_in_long [of v] by (simp add: atol_int_dec)

text \<open>
  Claim C8. On a store as a read-write open leaves it, for every key and every \<open>v\<close> in the
  signed 32-bit range, \<open>set_config_int(k, v)\<close> succeeds and a following
  \<open>get_config_int(k, 0)\<close> returns \<open>v\<close>: the base-10 text of \<open>v\<close> is read back to \<open>v\<close>.
\<close>

theorem C8_set_get_config_int:
  assumes "store_ready t" and "- (2 ^ 31) \<le> v" and "v < 2 ^ 31"
  shows "\<exists>t1. dc_sqlite3_set_config_int t (Some k) v = (1, t1) \<and> store_ready t1
              \<and> fst (dc_sqlite3_get_config_int t1 (Some k) 0) = v"
proof -
  from set_then_get [OF assms(1), of k "int_dec v" None] obtain t1 where
    s: "dc_sqlite3_set_config t (Some k) (Some (int_dec v)) = (1, t1)" "store_ready t1"
       "fst (dc_sqlite3_get_config t1 (Some k) None) = Some (int_dec v)"
    by blast
  have "fst (dc_sqlite3_get_config_int t1 (Some k) 0) = to_int32 (atol (int_dec v))"
    using s(3) by (cases "dc_sqlite3_get_config t1 (Some k) None")
      (simp add: dc_sqlite3_get_config_int_def)
  with assms(2,3) have "fst (dc_sqlite3_get_config_int t1 (Some k) 0) = v"
    by (simp add: atol_int_dec32 to_int32_id)
  with s(1,2) show ?thesis
    by (simp add: dc_sqlite3_set_config_int_def dc_mprintf_i_def)
qed

theorem C8_set_get_config_int_witness:
  "store_ready (store_on (config_db [])) \<and> - (2 ^ 31) \<le> (- 2147483648 :: int)
   \<and> (- 2147483648 :: int) < 2 ^ 31
   \<and> (\<exists>t1. dc_sqlite3_set_config_int (store_on (config_db [])) (Some ''k'') (- 2147483648) = (1, t1)
          \<and> store_ready t1 \<and> fst (dc_sqlite3_get_config_int t1 (Some ''k'') 0) = - 2147483648)"
proof -
  have h1: "store_ready (store_on (config_db []))"
    by (rule store_ready_store_on) (rule config_ok_config_db)
  have h2: "- (2 ^ 31) \<le> (- 2147483648 :: int)" and h3: "(- 2147483648 :: int) < 2 ^ 31"
    by simp_all
  from C8_set_get_config_int [OF h1 h2 h3, of "''k''"] h1 h2 h3 show ?thesis
    by blast
qed

section \<open>One-shot statements act on one table\<close>

lemma find_table_append:
  "find_table (db\<lparr>db_tables := db_tables db @ [(t, tb)]\<rparr>) T =
     (case find_table db T of Some x \<Rightarrow> Some x
      | None \<Rightarrow> if name_key T = name_key t then Some tb else None)"
  by (auto simp: find_table_def map_add_def split: option.splits)

lemma find_single [simp]: "find_table (single_table T tbo) T = tbo"
  by (cases tbo) (simp_all add: single_table_def find_table_def)

lemma has_cols_single [simp]:
  "has_cols (single_table T (find_table db T)) T cs = has_cols db T cs"
  by (simp add: has_cols_def)

lemma same_table:
  assumes "name_key t = name_key T"
  shows "find_table db t = find_table db T" and "has_cols db t cs = has_cols db T cs"
  by (simp_all add: has_cols_def find_table_key [OF assms])

lemma table_local:
  assumes "target q = Some (name_key T)"
  shows "find_table (exec_db False q db) T = table_after T q (find_table db T)"
proof (cases q)
  case (CREATE_TABLE t cols)
  with assms have nk: "name_key t = name_key T"
    by simp
  from CREATE_TABLE show ?thesis
    by (auto simp: table_after_def exec_db_def find_table_append same_table [OF nk]
          split: option.splits)
next
  case (INSERT_INTO t cs rows)
  with assms have nk: "name_key t = name_key T"
    by simp
  from INSERT_INTO show ?thesis
    by (auto simp: table_after_def exec_db_def find_put_table same_table [OF nk]
          split: option.splits)
next
  case (ALTER_TABLE_ADD_COLUMN t cd)
  with assms have nk: "name_key t = name_key T"
    by simp
  from ALTER_TABLE_ADD_COLUMN show ?thesis
    by (auto simp: table_after_def exec_db_def find_put_table same_table [OF nk]
          split: option.splits)
next
  case (DELETE_FROM t w)
  with assms have nk: "name_key t = name_key T"
    by simp
  from DELETE_FROM show ?thesis
    by (auto simp: table_after_def exec_db_def find_put_table same_table [OF nk]
          split: option.splits)
next
  case (UPDATE t sets w)
  with assms have nk: "name_key t = name_key T"
    by simp
  from UPDATE show ?thesis
    by (auto simp: table_after_def exec_db_def find_put_table same_table [OF nk]
          split: option.splits)
qed (use assms in simp_all)

lemma table_frame:
  assumes "target q \<noteq> Some (name_key T)"
  shows "find_table (exec_db ro q db) T = find_table db T"
proof (cases q)
  case (CREATE_TABLE t cols)
  with assms show ?thesis
    by (auto simp: exec_db_def find_table_append split: option.splits)
next
  case (INSERT_INTO t cs rows)
  with assms show ?thesis
    by (auto simp: exec_db_def find_put_table split: option.splits)
next
  case (ALTER_TABLE_ADD_COLUMN t cd)
  with assms show ?thesis
    by (auto simp: exec_db_def find_put_table split: option.splits)
next
  case (DELETE_FROM t w)
  with assms show ?thesis
    by (auto simp: exec_db_def find_put_table split: option.splits)
next
  case (UPDATE t sets w)
  with assms show ?thesis
    by (auto simp: exec_db_def find_put_table split: option.splits)
next
  case (PRAGMA_table_info t)
  then show ?thesis
    by (auto simp: exec_db_def split: option.splits)
next
  case (CREATE_INDEX i t cs)
  then show ?thesis
    by (auto simp: exec_db_def find_table_def)
next
  case (SELECT c t w)
  then show ?thesis
    by (auto simp: exec_db_def Let_def split: option.splits)
qed (simp_all add: exec_db_def)

lemma tables_local:
  "find_table (fold (exec_db False) qs db) T = tables_after T qs (find_table db T)"
proof (induction qs arbitrary: db)
  case Nil
  then show ?case by (simp add: tables_after_def)
next
  case (Cons q qs)
  show ?case
  proof (cases "target q = Some (name_key T)")
    case True
    with Cons [of "exec_db False q db"] show ?thesis
      by (simp add: tables_after_def table_local)
  next
    case False
    with Cons [of "exec_db False q db"] show ?thesis
      by (simp add: tables_after_def table_frame)
  qed
qed

lemma tables_after_append:
  "tables_after T (qs @ qs') tbo = tables_after T qs' (tables_after T qs tbo)"
  by (simp add: tables_after_def)

section \<open>One-shot execution on the handle\<close>

lemma oneshot_plain: "oneshot q \<Longrightarrow> q \<noteq> BEGIN \<and> q \<noteq> COMMIT \<and> q \<noteq> ROLLBACK"
  by (auto simp: oneshot_def all_pd_idx_def)

lemma sqlite3_step_db:
  assumes "q \<noteq> BEGIN" and "q \<noteq> COMMIT" and "q \<noteq> ROLLBACK"
  shows "snd (snd (sqlite3_step c q [])) =
           c\<lparr>cn_log := cn_log c @ [EvStep q []], cn_db := exec_db (cn_readonly c) q (cn_db c)\<rparr>"
  using assms by (auto simp: sqlite3_step_def exec_db_def Let_def case_prod_beta)

lemma submitted_oneshot:
  "submitted (EvPrepare q # (if b then [EvStep q []] else [])) = (if oneshot q then [q] else [])"
  by (simp add: oneshot_def)

lemma config_writes_oneshot:
  "config_writes (EvPrepare q # (if b then [EvStep q []] else [])) = []"
  by simp

lemma execute_conn:
  assumes "m_cobj h = Some c" and "q \<noteq> BEGIN" and "q \<noteq> COMMIT" and "q \<noteq> ROLLBACK"
  shows "m_cobj (snd (dc_sqlite3_execute h q)) =
           Some (c\<lparr>cn_log := cn_log c @ EvPrepare q # (if valid (cn_db c) q then [EvStep q []] else []),
                   cn_db := exec_db (cn_readonly c) q (cn_db c)\<rparr>)
         \<and> m_pd (snd (dc_sqlite3_execute h q)) = m_pd h"
proof (cases "valid (cn_db c) q")
  case True
  let ?c1 = "c\<lparr>cn_log := cn_log c @ [EvPrepare q]\<rparr>"
  have p: "dc_sqlite3_prepare_v2 h (Some q) = (Some q, h\<lparr>m_cobj := Some ?c1\<rparr>)"
    using assms(1) True by (simp add: dc_sqlite3_prepare_v2_def sqlite3_prepare_v2_def)
  obtain r res c2 where s: "sqlite3_step ?c1 q [] = (r, res, c2)"
    by (metis prod_cases3)
  from sqlite3_step_db [OF assms(2,3,4), of ?c1] s
  have c2: "c2 = c\<lparr>cn_log := cn_log c @ [EvPrepare q, EvStep q []],
                   cn_db := exec_db (cn_readonly c) q (cn_db c)\<rparr>"
    by simp
  show ?thesis
    using p s c2 True
    by (simp add: dc_sqlite3_execute_def step_stmt_def dc_sqlite3_log_error_def dc_log_error_def)
next
  case False
  then have "exec_db (cn_readonly c) q (cn_db c) = cn_db c"
    by (simp add: exec_db_def)
  with assms(1) False show ?thesis
    by (simp add: dc_sqlite3_execute_def dc_sqlite3_prepare_v2_def sqlite3_prepare_v2_def
          dc_sqlite3_log_error_def dc_log_error_def)
qed

lemma execute_all_conn:
  assumes "m_cobj h = Some c" and "list_all oneshot qs"
  shows "\<exists>l. m_cobj (execute_all h qs) =
                Some (c\<lparr>cn_log := cn_log c @ l,
                        cn_db := fold (exec_db (cn_readonly c)) qs (cn_db c)\<rparr>)
             \<and> submitted l = qs \<and> config_writes l = []
             \<and> m_pd (execute_all h qs) = m_pd h"
  using assms
proof (induction qs arbitrary: h c)
  case Nil
  then show ?case
    by (intro exI [of _ "[]"]) simp
next
  case (Cons q qs)
  let ?l1 = "EvPrepare q # (if valid (cn_db c) q then [EvStep q []] else [])"
  let ?c1 = "c\<lparr>cn_log := cn_log c @ ?l1, cn_db := exec_db (cn_readonly c) q (cn_db c)\<rparr>"
  let ?h1 = "snd (dc_sqlite3_execute h q)"
  from Cons.prems(2) have q: "oneshot q" and qs: "list_all oneshot qs"
    by simp_all
  from oneshot_plain [OF q] execute_conn [OF Cons.prems(1), of q]
  have h1: "m_cobj ?h1 = Some ?c1" and pd: "m_pd ?h1 = m_pd h"
    by simp_all
  from Cons.IH [OF h1 qs] obtain l where
    l: "m_cobj (execute_all ?h1 qs) =
          Some (?c1\<lparr>cn_log := cn_log ?c1 @ l,
                   cn_db := fold (exec_db (cn_readonly ?c1)) qs (cn_db ?c1)\<rparr>)"
       "submitted l = qs" "config_writes l = []" "m_pd (execute_all ?h1 qs) = m_pd ?h1"
    by blast
  have s1: "submitted ?l1 = [q]"
    using q by (simp only: submitted_oneshot if_True)
  have w1: "config_writes ?l1 = []"
    by (rule config_writes_oneshot)
  have "submitted (?l1 @ l) = q # qs"
    unfolding submitted_append s1 l(2) by simp
  moreover have "config_writes (?l1 @ l) = []"
    unfolding config_writes_append w1 l(3) by simp
  ultimately show ?case
    using l(1,4) pd by (intro exI [of _ "?l1 @ l"]) simp
qed

lemma table_exists_conn:
  assumes "m_cobj h = Some c"
  shows "dc_sqlite3_table_exists h n =
           ((if name_key n \<in> set schema_tables then 1
             else case find_table (cn_db c) n of None \<Rightarrow> 0
                  | Some tb \<Rightarrow> if tb_cols tb = [] then 0 else 1),
            h\<lparr>m_cobj := Some (c\<lparr>cn_log := cn_log c @ [EvPrepare (PRAGMA_table_info n),
                                                       EvStep (PRAGMA_table_info n) []]\<rparr>)\<rparr>)"
  using assms
  by (simp add: dc_sqlite3_table_exists_def dc_sqlite3_prepare_v2_def sqlite3_prepare_v2_def
        step_stmt_def sqlite3_step_def Let_def schema_cols_def split: option.splits)

section \<open>How a ready store evolves\<close>

lemma pd_ok_cong: "m_pd h' = m_pd h \<Longrightarrow> pd_ok h' = pd_ok h"
  by (simp add: pd_ok_def)

lemma stored_text_cong:
  "find_table db' ''config'' = find_table db ''config'' \<Longrightarrow> stored_text db' k = stored_text db k"
  by (simp add: stored_text_def)

lemma config_ok_cong:
  "find_table db' ''config'' = find_table db ''config'' \<Longrightarrow> config_ok db' = config_ok db"
  by (simp add: config_ok_def)

lemma tables_after_Nil [simp]: "tables_after T [] tbo = tbo"
  by (simp add: tables_after_def)

lemma tables_after_safe:
  "list_all safe qs \<Longrightarrow> tables_after ''config'' qs tbo = tbo"
proof -
  assume "list_all safe qs"
  then have "filter (\<lambda>q. target q = Some ''config'') qs = []"
    by (induction qs) (simp_all add: safe_def)
  then show ?thesis
    by (simp add: tables_after_def)
qed

lemma trace_append: "trace (a @ b) = trace a @ trace b"
  by (induction a rule: trace.induct) simp_all

lemma subs_append [simp]: "subs (a @ b) = subs a @ subs b"
  by (induction a rule: subs.induct) simp_all

lemma wrs_append [simp]: "wrs (a @ b) = wrs a @ wrs b"
  by (induction a rule: wrs.induct) simp_all

lemma subs_Submit [simp]: "subs (map Submit qs) = qs" "wrs (map Submit qs) = []"
  by (induction qs) simp_all

lemma subs_Write [simp]:
  "subs (map (\<lambda>(k, v). Write k v) ws) = []" "wrs (map (\<lambda>(k, v). Write k v) ws) = ws"
  by (induction ws) auto


lemma config_writes_trace: "config_writes l = wrs (trace l)"
  by (induction l rule: trace.induct) simp_all

lemma trace_submits: "config_writes l = [] \<Longrightarrow> trace l = map Submit (submitted l)"
  by (induction l rule: trace.induct) simp_all

lemma trace_writes: "submitted l = [] \<Longrightarrow> trace l = map (\<lambda>(k, v). Write k v) (config_writes l)"
  by (induction l rule: trace.induct) (simp_all split: if_splits)

lemma trace_silent: "submitted l = [] \<Longrightarrow> config_writes l = [] \<Longrightarrow> trace l = []"
  using trace_submits [of l] by simp

lemma evolves_refl: "store_ready h \<Longrightarrow> evolves h [] h"
  by (auto simp: evolves_def elim: store_readyE)

lemma evolves_trans:
  assumes "evolves h X h'" and "evolves h' X' h''"
  shows "evolves h (X @ X') h''"
proof -
  from assms(1) obtain c c' where
    a: "m_cobj h = Some c" "m_cobj h' = Some c'"
       "trace (cn_log c') = trace (cn_log c) @ X"
       "\<And>T. name_key T \<noteq> ''config'' \<Longrightarrow>
          find_table (cn_db c') T = tables_after T (subs X) (find_table (cn_db c) T)"
       "wrs X = [] \<Longrightarrow> find_table (cn_db c') ''config'' = find_table (cn_db c) ''config''"
       "wrs X \<noteq> [] \<Longrightarrow> stored_text (cn_db c') (fst (last (wrs X))) = Some (snd (last (wrs X)))"
    unfolding evolves_def by blast
  from assms(2) a(2) obtain c'' where
    b: "m_cobj h'' = Some c''" "store_ready h''"
       "trace (cn_log c'') = trace (cn_log c') @ X'"
       "\<And>T. name_key T \<noteq> ''config'' \<Longrightarrow>
          find_table (cn_db c'') T = tables_after T (subs X') (find_table (cn_db c') T)"
       "wrs X' = [] \<Longrightarrow> find_table (cn_db c'') ''config'' = find_table (cn_db c') ''config''"
       "wrs X' \<noteq> [] \<Longrightarrow> stored_text (cn_db c'') (fst (last (wrs X'))) = Some (snd (last (wrs X')))"
    unfolding evolves_def by auto
  have 1: "trace (cn_log c'') = trace (cn_log c) @ (X @ X')"
    using a(3) b(3) by simp
  have 3: "\<forall>T. name_key T \<noteq> ''config'' \<longrightarrow>
             find_table (cn_db c'') T = tables_after T (subs (X @ X')) (find_table (cn_db c) T)"
    using a(4) b(4) by (simp add: tables_after_append)
  have 4: "wrs (X @ X') = [] \<longrightarrow>
             find_table (cn_db c'') ''config'' = find_table (cn_db c) ''config''"
    using a(5) b(5) by simp
  have 5: "wrs (X @ X') \<noteq> [] \<longrightarrow>
             stored_text (cn_db c'') (fst (last (wrs (X @ X'))))
               = Some (snd (last (wrs (X @ X'))))"
  proof (cases "wrs X' = []")
    case True
    with a(6) b(5) show ?thesis
      by (auto simp: stored_text_cong [of "cn_db c''" "cn_db c'"])
  next
    case False
    with b(6) show ?thesis
      by simp
  qed
  show ?thesis
    unfolding evolves_def
    using a(1) b(1,2) 1 3 4 5 by blast
qed

lemma evolves_execute_all:
  assumes "store_ready h" and "list_all safe qs"
  shows "evolves h (map Submit qs) (execute_all h qs)"
proof -
  from assms(1) obtain c where c: "m_cobj h = Some c" "pd_ok h" "config_ok (cn_db c)"
    "\<not> cn_readonly c"
    by (rule store_readyE)
  from assms(2) have one: "list_all oneshot qs"
    by (induction qs) (simp_all add: safe_def)
  let ?db = "fold (exec_db (cn_readonly c)) qs (cn_db c)"
  from execute_all_conn [OF c(1) one] obtain l where
    l: "m_cobj (execute_all h qs) = Some (c\<lparr>cn_log := cn_log c @ l, cn_db := ?db\<rparr>)"
       "submitted l = qs" "config_writes l = []" "m_pd (execute_all h qs) = m_pd h"
    by blast
  have tr: "trace l = map Submit qs"
    using trace_submits [OF l(3)] l(2) by simp
  have tabs: "find_table ?db T = tables_after T qs (find_table (cn_db c) T)" for T
    using c(4) by (simp add: tables_local)
  then have cfg: "find_table ?db ''config'' = find_table (cn_db c) ''config''"
    using tables_after_safe [OF assms(2)] by simp
  have "store_ready (execute_all h qs)"
    using l(1) c(2,3,4) pd_ok_cong [OF l(4)] config_ok_cong [OF cfg]
    by (intro store_readyI [OF l(1)]) simp_all
  then show ?thesis
    unfolding evolves_def
    using c(1) l(1) tr tabs cfg
    by (intro exI [of _ c] exI [of _ "c\<lparr>cn_log := cn_log c @ l, cn_db := ?db\<rparr>"])
       (simp add: trace_append)
qed

lemma evolves_set_config_int:
  assumes "store_ready h"
  shows "evolves h [Write k (int_dec v)] (snd (dc_sqlite3_set_config_int h (Some k) v))"
proof -
  from assms obtain c where c: "m_cobj h = Some c" "pd_ok h" "config_ok (cn_db c)"
    "\<not> cn_readonly c"
    by (rule store_readyE)
  from set_config_value [OF c, of k "int_dec v"] obtain t' db' l where
    s: "dc_sqlite3_set_config h (Some k) (Some (int_dec v)) = (1, t')" "pd_ok t'"
       "m_cobj t' = Some (c\<lparr>cn_log := cn_log c @ l, cn_db := db'\<rparr>)"
       "config_ok db'" "stored_text db' k = Some (int_dec v)"
       "\<forall>T. name_key T \<noteq> ''config'' \<longrightarrow> find_table db' T = find_table (cn_db c) T"
       "submitted l = []" "config_writes l = [(k, int_dec v)]"
    by blast
  have tr: "trace l = [Write k (int_dec v)]"
    using trace_writes [OF s(7)] s(8) by simp
  have eq: "snd (dc_sqlite3_set_config_int h (Some k) v) = t'"
    using s(1) by (simp add: dc_sqlite3_set_config_int_def dc_mprintf_i_def)
  have "store_ready t'"
    using s(4) c(4) by (intro store_readyI [OF s(3) s(2)]) simp_all
  then show ?thesis
    unfolding evolves_def eq
    using c(1) s(3,5,6) tr
    by (intro exI [of _ c] exI [of _ "c\<lparr>cn_log := cn_log c @ l, cn_db := db'\<rparr>"])
       (simp add: trace_append)
qed

lemma evolves_ready: "evolves h X h' \<Longrightarrow> store_ready h'"
  by (auto simp: evolves_def)

section \<open>The ladder\<close>

lemmas cached_defs = oneshot_def all_pd_idx_def SELECT_v_FROM_config_k_STATEMENT_def
  INSERT_INTO_config_kv_STATEMENT_def UPDATE_config_vk_STATEMENT_def
  DELETE_FROM_config_k_STATEMENT_def

lemma safe_stmts:
  "list_all safe stmts_1" "list_all safe stmts_2" "list_all safe stmts_7" "list_all safe stmts_10"
  "list_all safe stmts_12" "list_all safe stmts_17" "list_all safe stmts_18"
  "list_all safe stmts_27" "list_all safe stmts_34" "list_all safe stmts_39"
  "list_all safe stmts_40" "list_all safe [copy_gossip_key, copy_public_key]"
  by (simp_all add: safe_def cached_defs stmts_1_def stmts_2_def stmts_7_def stmts_10_def
        stmts_12_def stmts_17_def stmts_18_def stmts_27_def stmts_34_def stmts_39_def stmts_40_def
        copy_gossip_key_def copy_public_key_def)

lemma safe_copies: "safe copy_gossip_key" "safe copy_public_key"
  using safe_stmts(12) by simp_all

lemma safe_ladder_stmts: "list_all safe (ladder_stmts v0 tgt)"
  by (simp add: ladder_stmts_def safe_stmts safe_copies)

lemma execute_all_append: "execute_all h (qs @ qs') = execute_all (execute_all h qs) qs'"
  by (induction qs arbitrary: h) simp_all

lemma execute_in_append: "execute_in (qs @ qs') vs = execute_in qs' (execute_in qs vs)"
  by (simp add: execute_in_def execute_all_append)

lemma execute_in_fields [simp]:
  "dbversion (execute_in qs vs) = dbversion vs"
  "dbversion_before_update (execute_in qs vs) = dbversion_before_update vs"
  "recalc_fingerprints (execute_in qs vs) = recalc_fingerprints vs"
  by (simp_all add: execute_in_def)

lemma recalc_upd_same [simp]:
  "recalc_fingerprints vs = r \<Longrightarrow> vs\<lparr>recalc_fingerprints := r\<rparr> = vs"
  by auto

lemma execute_in_Nil [simp]: "execute_in [] vs = vs"
  by (simp add: execute_in_def)

lemma blocks_are_ladder_blocks:
  "block_1 = ladder_block 1" "block_2 = ladder_block 2" "block_7 = ladder_block 7"
  "block_10 = ladder_block 10" "block_12 = ladder_block 12" "block_17 = ladder_block 17"
  "block_18 = ladder_block 18" "block_27 = ladder_block 27" "block_34 = ladder_block 34"
  "block_39 = ladder_block 39" "block_40 = ladder_block 40"
  by (rule ext, simp add: block_1_def block_2_def block_7_def block_10_def block_12_def
        block_17_def block_18_def block_27_def block_34_def block_39_def block_40_def
        ladder_block_def ladder_stmts_def execute_in_append Let_def)+

lemma open_ladder_fold: "open_ladder vs = fold ladder_block ladder_targets vs"
  by (simp add: open_ladder_def ladder_targets_def blocks_are_ladder_blocks)

lemma ladder_block_skip: "\<not> dbversion vs < tgt \<Longrightarrow> ladder_block tgt vs = vs"
  by (simp add: ladder_block_def)

lemma ladder_block_run:
  assumes "store_ready (hnd vs)" and "dbversion vs < tgt"
  shows "evolves (hnd vs) (block_trace (dbversion_before_update vs) tgt)
           (hnd (ladder_block tgt vs))
       \<and> dbversion (ladder_block tgt vs) = tgt
       \<and> dbversion_before_update (ladder_block tgt vs) = dbversion_before_update vs
       \<and> recalc_fingerprints (ladder_block tgt vs) = (if tgt = 34 then 1 else recalc_fingerprints vs)"
proof -
  let ?S = "ladder_stmts (dbversion_before_update vs) tgt"
  let ?h1 = "execute_all (hnd vs) ?S"
  have e1: "evolves (hnd vs) (map Submit ?S) ?h1"
    by (rule evolves_execute_all [OF assms(1) safe_ladder_stmts])
  have e2: "evolves ?h1 [Write ''dbversion'' (int_dec tgt)]
              (snd (dc_sqlite3_set_config_int ?h1 (Some ''dbversion'') tgt))"
    by (rule evolves_set_config_int [OF evolves_ready [OF e1]])
  from evolves_trans [OF e1 e2] assms(2) show ?thesis
    by (simp add: ladder_block_def set_dbversion_def execute_in_def block_trace_def)
qed

text \<open>
  Running the blocks of an ascending list of targets: exactly the blocks whose target
  exceeds the version at the start run, in order, each followed by the write of its
  target.
\<close>

lemma ladder_fold:
  assumes "store_ready (hnd vs)" and "sorted_wrt (<) ts"
    and "dbversion_before_update vs = v0"
  shows "evolves (hnd vs) (concat (map (block_trace v0) (filter (\<lambda>tgt. dbversion vs < tgt) ts)))
           (hnd (fold ladder_block ts vs))
       \<and> dbversion (fold ladder_block ts vs) =
           (if filter (\<lambda>tgt. dbversion vs < tgt) ts = [] then dbversion vs
            else last (filter (\<lambda>tgt. dbversion vs < tgt) ts))
       \<and> dbversion_before_update (fold ladder_block ts vs) = v0
       \<and> recalc_fingerprints (fold ladder_block ts vs) =
           (if 34 \<in> set (filter (\<lambda>tgt. dbversion vs < tgt) ts) then 1 else recalc_fingerprints vs)"
  using assms
proof (induction ts arbitrary: vs)
  case Nil
  then show ?case
    by (simp add: evolves_refl)
next
  case (Cons tgt ts)
  from Cons.prems(2) have sorted: "sorted_wrt (<) ts" and above: "\<forall>x\<in>set ts. tgt < x"
    by simp_all
  show ?case
  proof (cases "dbversion vs < tgt")
    case False
    then have skip: "ladder_block tgt vs = vs"
      by (rule ladder_block_skip)
    from Cons.IH [OF Cons.prems(1) sorted Cons.prems(3)] False skip
    show ?thesis
      by simp
  next
    case True
    let ?vs1 = "ladder_block tgt vs"
    from ladder_block_run [OF Cons.prems(1) True] Cons.prems(3) have
      e1: "evolves (hnd vs) (block_trace v0 tgt) (hnd ?vs1)"
      and v1: "dbversion ?vs1 = tgt" and b1: "dbversion_before_update ?vs1 = v0"
      and r1: "recalc_fingerprints ?vs1 = (if tgt = 34 then 1 else recalc_fingerprints vs)"
      by simp_all
    have f1: "filter (\<lambda>x. dbversion ?vs1 < x) ts = ts"
      using above v1 by (simp add: filter_id_conv)
    have f0: "filter (\<lambda>x. dbversion vs < x) ts = ts"
      using above True by (auto simp: filter_id_conv)
    from Cons.IH [OF evolves_ready [OF e1] sorted b1] f1 have
      e2: "evolves (hnd ?vs1) (concat (map (block_trace v0) ts)) (hnd (fold ladder_block ts ?vs1))"
      and v2: "dbversion (fold ladder_block ts ?vs1) = (if ts = [] then dbversion ?vs1 else last ts)"
      and b2: "dbversion_before_update (fold ladder_block ts ?vs1) = v0"
      and r2: "recalc_fingerprints (fold ladder_block ts ?vs1) =
                 (if 34 \<in> set ts then 1 else recalc_fingerprints ?vs1)"
      by simp_all
    have dv: "dbversion (fold ladder_block ts ?vs1) = last (tgt # ts)"
      using v2 v1 by simp
    have rc: "recalc_fingerprints (fold ladder_block ts ?vs1) =
                (if 34 \<in> set (tgt # ts) then 1 else recalc_fingerprints vs)"
      using r2 r1 by auto
    have ev: "evolves (hnd vs) (concat (map (block_trace v0) (tgt # ts)))
                (hnd (fold ladder_block ts ?vs1))"
      using evolves_trans [OF e1 e2] by simp
    have fl: "filter (\<lambda>x. dbversion vs < x) (tgt # ts) = tgt # ts"
      using True f0 by simp
    show ?thesis
      unfolding fl fold_Cons o_apply
      using ev dv rc b2 by simp
  qed
qed

lemma sorted_ladder_targets: "sorted_wrt (<) ladder_targets"
  by (simp add: ladder_targets_def)

lemma open_ladder_evolves:
  assumes "store_ready (hnd vs)" and "dbversion_before_update vs = v0" and "dbversion vs = v0"
  shows "evolves (hnd vs) (concat (map (block_trace v0) (filter (\<lambda>tgt. v0 < tgt) ladder_targets)))
           (hnd (open_ladder vs))
       \<and> (recalc_fingerprints (open_ladder vs) \<noteq> 0 \<longleftrightarrow> v0 < 34 \<or> recalc_fingerprints vs \<noteq> 0)"
proof -
  have "34 \<in> set (filter (\<lambda>tgt. v0 < tgt) ladder_targets) \<longleftrightarrow> v0 < 34"
    by (auto simp: ladder_targets_def)
  with ladder_fold [OF assms(1) sorted_ladder_targets assms(2)] assms(3) show ?thesis
    by (simp add: open_ladder_fold)
qed

section \<open>The read-write branch of the open\<close>

lemma get_config_int_full:
  assumes "m_cobj t = Some c" and "pd_ok t" and "config_ok (cn_db c)"
  shows "\<exists>t' l. dc_sqlite3_get_config_int t (Some k) d =
                  ((case stored_text (cn_db c) k of None \<Rightarrow> d | Some s \<Rightarrow> to_int32 (atol s)), t')
              \<and> pd_ok t' \<and> m_cobj t' = Some (c\<lparr>cn_log := cn_log c @ l\<rparr>)
              \<and> submitted l = [] \<and> config_writes l = []"
proof -
  from get_config_stored [OF assms, of k None] obtain t' l where
    g: "dc_sqlite3_get_config t (Some k) None =
         ((case stored_text (cn_db c) k of None \<Rightarrow> None | Some s \<Rightarrow> Some s), t')"
       "pd_ok t'" "m_cobj t' = Some (c\<lparr>cn_log := cn_log c @ l\<rparr>)"
       "submitted l = []" "config_writes l = []"
    by blast
  have "dc_sqlite3_get_config_int t (Some k) d =
          ((case stored_text (cn_db c) k of None \<Rightarrow> d | Some s \<Rightarrow> to_int32 (atol s)), t')"
    using g(1) by (simp add: dc_sqlite3_get_config_int_def split: option.splits)
  with g(2-5) show ?thesis
    by blast
qed

lemma config_cols_nonempty: "config_cols \<noteq> []"
  by (simp add: config_cols_def)

lemma pragma_logs:
  "submitted [EvPrepare (PRAGMA_table_info n), EvStep (PRAGMA_table_info n) []] = [PRAGMA_table_info n]"
  "config_writes [EvPrepare (PRAGMA_table_info n), EvStep (PRAGMA_table_info n) []] = []"
  by (simp_all add: cached_defs)

lemma pragma_trace:
  "trace [EvPrepare (PRAGMA_table_info n), EvStep (PRAGMA_table_info n) []]
     = [Submit (PRAGMA_table_info n)]"
  by (simp add: cached_defs)

text \<open>The start of the read-write branch on a database that has its config table.\<close>

lemma open_tables_existing:
  assumes "m_cobj h = Some c" and "pd_ok h" and "config_ok (cn_db c)" and "\<not> cn_readonly c"
  shows "\<exists>h'. open_tables h = (True, stored_version (cn_db c), h')
             \<and> evolves h (map Submit (before_ladder False)) h'"
proof -
  from assms(3) obtain tb where tb: "find_table (cn_db c) ''config'' = Some tb"
    "tb_cols tb = config_cols"
    by (rule config_okE)
  let ?lp = "[EvPrepare (PRAGMA_table_info ''config''), EvStep (PRAGMA_table_info ''config'') []]"
  let ?c1 = "c\<lparr>cn_log := cn_log c @ ?lp\<rparr>"
  let ?h1 = "h\<lparr>m_cobj := Some ?c1\<rparr>"
  have te: "dc_sqlite3_table_exists h ''config'' = (1, ?h1)"
    using table_exists_conn [OF assms(1), of "''config''"] tb config_cols_nonempty by simp
  have h1: "m_cobj ?h1 = Some ?c1" "pd_ok ?h1" "config_ok (cn_db ?c1)"
    using assms(2,3) by simp_all
  from get_config_int_full [OF h1, of "''dbversion''" 0] obtain h2 l where
    g: "dc_sqlite3_get_config_int ?h1 (Some ''dbversion'') 0 = (stored_version (cn_db c), h2)"
       "pd_ok h2" "m_cobj h2 = Some (?c1\<lparr>cn_log := cn_log ?c1 @ l\<rparr>)"
       "submitted l = []" "config_writes l = []"
    by (auto simp: stored_version_def)
  have res: "open_tables h = (True, stored_version (cn_db c), h2)"
    using te g(1) by (simp add: open_tables_def)
  define c2 where "c2 = ?c1\<lparr>cn_log := cn_log ?c1 @ l\<rparr>"
  have c2: "m_cobj h2 = Some c2" "cn_db c2 = cn_db c" "\<not> cn_readonly c2"
    "cn_log c2 = cn_log c @ (?lp @ l)"
    using g(3) assms(4) by (simp_all add: c2_def)
  have rdy: "store_ready h2"
    using assms(3) c2(2,3) by (intro store_readyI [OF c2(1) g(2)]) simp_all
  have tr: "trace (cn_log c2) = trace (cn_log c) @ map Submit (before_ladder False)"
    unfolding c2(4) trace_append pragma_trace trace_silent [OF g(4) g(5)] before_ladder_def
    by simp
  have tabs: "\<forall>T. name_key T \<noteq> ''config'' \<longrightarrow>
                find_table (cn_db c2) T = tables_after T (before_ladder False) (find_table (cn_db c) T)"
    unfolding c2(2) by (simp add: before_ladder_def tables_after_def)
  have "evolves h (map Submit (before_ladder False)) h2"
    unfolding evolves_def
    using assms(1) c2(1,2) rdy tr tabs
    by (intro exI [of _ c] exI [of _ c2]) simp
  with res show ?thesis
    by blast
qed

lemma tables_exist_conn:
  assumes "m_cobj h = Some c" and "list_all (\<lambda>n. name_key n \<notin> set schema_tables) ns"
  shows "\<exists>l. tables_exist h ns =
               (list_all (\<lambda>n. case find_table (cn_db c) n of None \<Rightarrow> False
                               | Some tb \<Rightarrow> tb_cols tb \<noteq> []) ns,
                h\<lparr>m_cobj := Some (c\<lparr>cn_log := cn_log c @ l\<rparr>)\<rparr>)
             \<and> (list_all (\<lambda>n. case find_table (cn_db c) n of None \<Rightarrow> False
                               | Some tb \<Rightarrow> tb_cols tb \<noteq> []) ns \<longrightarrow>
                  submitted l = map PRAGMA_table_info ns)
             \<and> config_writes l = []"
  using assms
proof (induction ns arbitrary: h c)
  case Nil
  then show ?case
    by (intro exI [of _ "[]"]) simp
next
  case (Cons n ns)
  let ?P = "\<lambda>n. case find_table (cn_db c) n of None \<Rightarrow> False | Some tb \<Rightarrow> tb_cols tb \<noteq> []"
  let ?lp = "[EvPrepare (PRAGMA_table_info n), EvStep (PRAGMA_table_info n) []]"
  let ?c1 = "c\<lparr>cn_log := cn_log c @ ?lp\<rparr>"
  let ?h1 = "h\<lparr>m_cobj := Some ?c1\<rparr>"
  from Cons.prems(2) have plain: "name_key n \<notin> set schema_tables"
    and plains: "list_all (\<lambda>n. name_key n \<notin> set schema_tables) ns"
    by simp_all
  have te: "dc_sqlite3_table_exists h n = (if ?P n then 1 else 0, ?h1)"
    using table_exists_conn [OF Cons.prems(1), of n] plain by (simp split: option.splits)
  show ?case
  proof (cases "?P n")
    case False
    with te have "tables_exist h (n # ns) = (False, h\<lparr>m_cobj := Some (c\<lparr>cn_log := cn_log c @ ?lp\<rparr>)\<rparr>)"
      by simp
    then show ?thesis
      using pragma_logs(2) [of n] False by (intro exI [of _ ?lp]) simp
  next
    case True
    have "m_cobj ?h1 = Some ?c1"
      by simp
    from Cons.IH [OF this plains] obtain l where
      a: "tables_exist ?h1 ns = (list_all ?P ns, ?h1\<lparr>m_cobj := Some (?c1\<lparr>cn_log := cn_log ?c1 @ l\<rparr>)\<rparr>)"
         "list_all ?P ns \<longrightarrow> submitted l = map PRAGMA_table_info ns" "config_writes l = []"
      by auto
    have "tables_exist h (n # ns) =
            (list_all ?P (n # ns), h\<lparr>m_cobj := Some (c\<lparr>cn_log := cn_log c @ (?lp @ l)\<rparr>)\<rparr>)"
      using te True a(1) by simp
    moreover have "list_all ?P (n # ns) \<longrightarrow> submitted (?lp @ l) = map PRAGMA_table_info (n # ns)"
      using a(2) pragma_logs(1) [of n] unfolding submitted_append by simp
    moreover have "config_writes (?lp @ l) = []"
      using a(3) pragma_logs(2) [of n] unfolding config_writes_append by simp
    ultimately show ?thesis
      by blast
  qed
qed

lemma oneshot_init_stmts: "list_all oneshot init_stmts"
  by (simp add: init_stmts_def cached_defs)

lemma config_after_init:
  "tables_after ''config'' init_stmts None = Some \<lparr>tb_cols = config_cols, tb_rows = []\<rparr>"
  by (simp add: tables_after_def init_stmts_def table_after_def exec_db_def single_table_def
        find_table_def config_cols_def)

lemma tables_after_pragmas:
  "tables_after T (PRAGMA_table_info n # qs @ map PRAGMA_table_info ns) tbo = tables_after T qs tbo"
  by (simp add: tables_after_def filter_empty_conv)

lemma tables_after_before_ladder:
  "tables_after T (before_ladder True) tbo = tables_after T init_stmts tbo"
  unfolding before_ladder_def if_True by (rule tables_after_pragmas)

text \<open>
  The start of the read-write branch on a database without a config table: the initial
  statements are submitted, and when the six tables are then found, version 0 is written.
\<close>

lemma open_tables_first_time:
  assumes "m_cobj h = Some c" and "pd_ok h" and "find_table (cn_db c) ''config'' = None"
    and "\<not> cn_readonly c"
  shows "\<exists>h'. open_tables h =
                (list_all (\<lambda>n. case tables_after n init_stmts (find_table (cn_db c) n) of
                                  None \<Rightarrow> False | Some tb \<Rightarrow> tb_cols tb \<noteq> [])
                   [''config'', ''contacts'', ''chats'', ''chats_contacts'', ''msgs'', ''jobs''],
                 0, h')
             \<and> (list_all (\<lambda>n. case tables_after n init_stmts (find_table (cn_db c) n) of
                                  None \<Rightarrow> False | Some tb \<Rightarrow> tb_cols tb \<noteq> [])
                   [''config'', ''contacts'', ''chats'', ''chats_contacts'', ''msgs'', ''jobs''] \<longrightarrow>
                  evolves h (map Submit (before_ladder True) @ [Write ''dbversion'' (int_dec 0)]) h')"
proof -
  let ?names = "[''config'', ''contacts'', ''chats'', ''chats_contacts'', ''msgs'', ''jobs'']"
  let ?lp = "[EvPrepare (PRAGMA_table_info ''config''), EvStep (PRAGMA_table_info ''config'') []]"
  define c1 where "c1 = c\<lparr>cn_log := cn_log c @ ?lp\<rparr>"
  define h2 where "h2 = dc_log_info (h\<lparr>m_cobj := Some c1\<rparr>) ''First time init: creating tables in %s.''"
  have te: "dc_sqlite3_table_exists h ''config'' = (0, h\<lparr>m_cobj := Some c1\<rparr>)"
    using table_exists_conn [OF assms(1), of "''config''"] assms(3) by (simp add: c1_def)
  have c1: "cn_db c1 = cn_db c" "cn_readonly c1 = False" "cn_log c1 = cn_log c @ ?lp"
    using assms(4) by (simp_all add: c1_def)
  have h2: "m_cobj h2 = Some c1" "m_pd h2 = m_pd h"
    by (simp_all add: h2_def dc_log_info_def)
  define h3 where "h3 = execute_all h2 init_stmts"
  define db3 where "db3 = fold (exec_db False) init_stmts (cn_db c)"
  from execute_all_conn [OF h2(1) oneshot_init_stmts] obtain l3 where
    l3: "m_cobj h3 = Some (c1\<lparr>cn_log := cn_log c1 @ l3, cn_db := db3\<rparr>)"
        "submitted l3 = init_stmts" "config_writes l3 = []" "m_pd h3 = m_pd h2"
    unfolding h3_def db3_def c1(1,2) by blast
  define c3 where "c3 = c1\<lparr>cn_log := cn_log c1 @ l3, cn_db := db3\<rparr>"
  have c3: "m_cobj h3 = Some c3" "cn_db c3 = db3" "cn_readonly c3 = False"
    "cn_log c3 = cn_log c @ (?lp @ l3)"
    using l3(1) c1 by (simp_all add: c3_def)
  have tabs: "find_table db3 T = tables_after T init_stmts (find_table (cn_db c) T)" for T
    unfolding db3_def by (rule tables_local)
  let ?ok = "list_all (\<lambda>n. case tables_after n init_stmts (find_table (cn_db c) n) of
                              None \<Rightarrow> False | Some tb \<Rightarrow> tb_cols tb \<noteq> []) ?names"
  have "list_all (\<lambda>n. name_key n \<notin> set schema_tables) ?names"
    by simp
  from tables_exist_conn [OF c3(1) this] obtain l4 where
    l4: "tables_exist h3 ?names = (?ok, h3\<lparr>m_cobj := Some (c3\<lparr>cn_log := cn_log c3 @ l4\<rparr>)\<rparr>)"
        "?ok \<longrightarrow> submitted l4 = map PRAGMA_table_info ?names" "config_writes l4 = []"
    unfolding c3(2) tabs by blast
  define c4 where "c4 = c3\<lparr>cn_log := cn_log c3 @ l4\<rparr>"
  define h4 where "h4 = h3\<lparr>m_cobj := Some c4\<rparr>"
  have c4: "m_cobj h4 = Some c4" "cn_db c4 = db3" "cn_readonly c4 = False"
    "cn_log c4 = cn_log c @ (?lp @ l3 @ l4)" "m_pd h4 = m_pd h"
    using c3 l3(4) h2(2) by (simp_all add: c4_def h4_def)
  have l4': "tables_exist h3 ?names = (?ok, h4)"
    using l4(1) by (simp add: h4_def c4_def)
  define h5 where "h5 = (if ?ok then snd (dc_sqlite3_set_config_int h4 (Some ''dbversion'') 0)
                         else dc_sqlite3_log_error h4 ''Cannot create tables in new database %s.'')"
  have res: "open_tables h = (?ok, 0, h5)"
    using te l4' by (simp add: open_tables_def Let_def h5_def h4_def h3_def h2_def)
  have "evolves h (map Submit (before_ladder True) @ [Write ''dbversion'' (int_dec 0)]) h5"
    if ok: ?ok
  proof -
    have cfg: "config_ok db3"
      using tabs [of "''config''"] assms(3) config_after_init by (simp add: config_ok_def)
    have rdy: "store_ready h4"
      using cfg c4(2,3) pd_ok_cong [OF c4(5)] assms(2)
      by (intro store_readyI [OF c4(1)]) simp_all
    have h5': "h5 = snd (dc_sqlite3_set_config_int h4 (Some ''dbversion'') 0)"
      using ok by (simp add: h5_def)
    from evolves_set_config_int [OF rdy, of "''dbversion''" 0] c4(1) obtain c5 where
      c5: "m_cobj h5 = Some c5" "store_ready h5"
          "trace (cn_log c5) = trace (cn_log c4) @ [Write ''dbversion'' (int_dec 0)]"
          "\<And>T. name_key T \<noteq> ''config'' \<Longrightarrow> find_table (cn_db c5) T = tables_after T [] (find_table (cn_db c4) T)"
          "stored_text (cn_db c5) ''dbversion'' = Some (int_dec 0)"
      unfolding evolves_def h5' by auto
    have t3: "trace l3 = map Submit init_stmts"
      using trace_submits [OF l3(3)] l3(2) by simp
    have t4: "trace l4 = map Submit (map PRAGMA_table_info ?names)"
      using trace_submits [OF l4(3)] l4(2) ok by simp
    have tr: "trace (cn_log c5) = trace (cn_log c)
                @ (map Submit (before_ladder True) @ [Write ''dbversion'' (int_dec 0)])"
      unfolding c5(3) c4(4) trace_append pragma_trace t3 t4 before_ladder_def by simp
    have tb: "\<forall>T. name_key T \<noteq> ''config'' \<longrightarrow>
                find_table (cn_db c5) T = tables_after T (before_ladder True) (find_table (cn_db c) T)"
      using c5(4) c4(2) tabs by (simp add: tables_after_before_ladder)
    show ?thesis
      unfolding evolves_def
      using assms(1) c5(1,2,5) tr tb
      by (intro exI [of _ c] exI [of _ c5]) simp
  qed
  with res show ?thesis
    by blast
qed

lemma resave_frame:
  assumes "m_cobj h = Some c" and "\<not> cn_readonly c"
  shows "\<exists>db'. dc_apeerstate_resave fp a h = h\<lparr>m_cobj := Some (c\<lparr>cn_db := db'\<rparr>)\<rparr>
            \<and> (\<forall>T. name_key T \<noteq> ''acpeerstates'' \<longrightarrow> find_table db' T = find_table (cn_db c) T)
            \<and> find_table db' ''acpeerstates''
                = map_option (resave_table fp a) (find_table (cn_db c) ''acpeerstates'')"
proof (cases "find_table (cn_db c) ''acpeerstates''")
  case None
  with assms have "dc_apeerstate_resave fp a h = h\<lparr>m_cobj := Some (c\<lparr>cn_db := cn_db c\<rparr>)\<rparr>"
    by (simp add: dc_apeerstate_resave_def)
  with None show ?thesis
    by (intro exI [of _ "cn_db c"]) simp
next
  case (Some tb)
  show ?thesis
  proof (cases "a = VNull")
    case True
    with assms Some have "dc_apeerstate_resave fp a h = h\<lparr>m_cobj := Some (c\<lparr>cn_db := cn_db c\<rparr>)\<rparr>"
      by (auto simp: dc_apeerstate_resave_def)
    with Some True show ?thesis
      by (intro exI [of _ "cn_db c"]) (simp add: resave_table_def)
  next
    case False
    let ?db = "put_table ''acpeerstates''
                 (tb\<lparr>tb_rows := map (\<lambda>r. if cell r ''addr'' = a then recalc_row fp r else r)
                                     (tb_rows tb)\<rparr>) (cn_db c)"
    from assms Some False
    have "dc_apeerstate_resave fp a h = h\<lparr>m_cobj := Some (c\<lparr>cn_db := ?db\<rparr>)\<rparr>"
      by (simp add: dc_apeerstate_resave_def)
    moreover have "\<forall>T. name_key T \<noteq> ''acpeerstates'' \<longrightarrow> find_table ?db T = find_table (cn_db c) T"
      by (simp add: find_put_table)
    moreover have "find_table ?db ''acpeerstates''
                     = map_option (resave_table fp a) (find_table (cn_db c) ''acpeerstates'')"
      using Some False by (simp add: find_put_table resave_table_def)
    ultimately show ?thesis
      by (intro exI [of _ ?db]) simp
  qed
qed

lemma resave_fold_frame:
  assumes "m_cobj h = Some c" and "\<not> cn_readonly c"
  shows "\<exists>db'. fold (dc_apeerstate_resave fp) as h = h\<lparr>m_cobj := Some (c\<lparr>cn_db := db'\<rparr>)\<rparr>
            \<and> (\<forall>T. name_key T \<noteq> ''acpeerstates'' \<longrightarrow> find_table db' T = find_table (cn_db c) T)
            \<and> find_table db' ''acpeerstates''
                = map_option (fold (resave_table fp) as) (find_table (cn_db c) ''acpeerstates'')"
  using assms
proof (induction as arbitrary: h c)
  case Nil
  then have "fold (dc_apeerstate_resave fp) [] h = h\<lparr>m_cobj := Some (c\<lparr>cn_db := cn_db c\<rparr>)\<rparr>"
    by simp
  then show ?case
    by (intro exI [of _ "cn_db c"]) (simp add: option.map_ident)
next
  case (Cons a as)
  from resave_frame [OF Cons.prems, of fp a] obtain db1 where
    a: "dc_apeerstate_resave fp a h = h\<lparr>m_cobj := Some (c\<lparr>cn_db := db1\<rparr>)\<rparr>"
       "\<forall>T. name_key T \<noteq> ''acpeerstates'' \<longrightarrow> find_table db1 T = find_table (cn_db c) T"
       "find_table db1 ''acpeerstates''
          = map_option (resave_table fp a) (find_table (cn_db c) ''acpeerstates'')"
    by blast
  let ?h1 = "h\<lparr>m_cobj := Some (c\<lparr>cn_db := db1\<rparr>)\<rparr>"
  have h1: "m_cobj ?h1 = Some (c\<lparr>cn_db := db1\<rparr>)" "\<not> cn_readonly (c\<lparr>cn_db := db1\<rparr>)"
    using Cons.prems(2) by simp_all
  from Cons.IH [OF h1] obtain db2 where
    b: "fold (dc_apeerstate_resave fp) as ?h1 = ?h1\<lparr>m_cobj := Some (c\<lparr>cn_db := db1, cn_db := db2\<rparr>)\<rparr>"
       "\<forall>T. name_key T \<noteq> ''acpeerstates'' \<longrightarrow> find_table db2 T = find_table (cn_db (c\<lparr>cn_db := db1\<rparr>)) T"
       "find_table db2 ''acpeerstates''
          = map_option (fold (resave_table fp) as) (find_table (cn_db (c\<lparr>cn_db := db1\<rparr>)) ''acpeerstates'')"
    by blast
  have "fold (dc_apeerstate_resave fp) (a # as) h = h\<lparr>m_cobj := Some (c\<lparr>cn_db := db2\<rparr>)\<rparr>"
    using a(1) b(1) by simp
  moreover have "\<forall>T. name_key T \<noteq> ''acpeerstates'' \<longrightarrow> find_table db2 T = find_table (cn_db c) T"
    using a(2) b(2) by simp
  moreover have "find_table db2 ''acpeerstates''
                   = map_option (fold (resave_table fp) (a # as)) (find_table (cn_db c) ''acpeerstates'')"
    using a(3) b(3) by (cases "find_table (cn_db c) ''acpeerstates''") simp_all
  ultimately show ?case
    by (intro exI [of _ db2]) (simp add: o_def)
qed

lemma select_addr_logs:
  "submitted (EvPrepare (SELECT ''addr'' ''acpeerstates'' Always) # l) =
     SELECT ''addr'' ''acpeerstates'' Always # submitted l"
  "config_writes [EvStep (SELECT ''addr'' ''acpeerstates'' Always) []] = []"
  "trace (EvPrepare (SELECT ''addr'' ''acpeerstates'' Always) # l) =
     Submit (SELECT ''addr'' ''acpeerstates'' Always) # trace l"
  "trace [EvStep (SELECT ''addr'' ''acpeerstates'' Always) []] = []"
  by (simp_all add: cached_defs)

lemma exec_db_select [simp]: "exec_db ro (SELECT col t w) db = db"
  by (simp add: exec_db_def Let_def split: option.splits)

text \<open>
  The pass after the ladder submits its SELECT, changes no table but acpeerstates, and
  leaves acpeerstates with its fingerprints recomputed.
\<close>

lemma recalc_pass_frame:
  assumes "m_cobj h = Some c" and "\<not> cn_readonly c"
  shows "\<exists>c'. m_cobj (recalc_pass fp h) = Some c' \<and> m_pd (recalc_pass fp h) = m_pd h
           \<and> cn_readonly c' = cn_readonly c
           \<and> trace (cn_log c') = trace (cn_log c) @ [Submit (SELECT ''addr'' ''acpeerstates'' Always)]
           \<and> (\<forall>T. name_key T \<noteq> ''acpeerstates'' \<longrightarrow> find_table (cn_db c') T = find_table (cn_db c) T)
           \<and> find_table (cn_db c') ''acpeerstates''
               = map_option (recalc_table fp) (find_table (cn_db c) ''acpeerstates'')"
proof -
  let ?q = "SELECT ''addr'' ''acpeerstates'' Always"
  let ?c1 = "c\<lparr>cn_log := cn_log c @ [EvPrepare ?q]\<rparr>"
  show ?thesis
  proof (cases "valid (cn_db c) ?q")
    case False
    then have "recalc_pass fp h = dc_sqlite3_log_error (h\<lparr>m_cobj := Some ?c1\<rparr>) ''Query failed: %s''"
      using assms
      by (simp add: recalc_pass_def dc_sqlite3_prepare_v2_def sqlite3_prepare_v2_def step_stmt_def)
    moreover from False have "find_table (cn_db c) ''acpeerstates''
                     = map_option (recalc_table fp) (find_table (cn_db c) ''acpeerstates'')"
      by (auto simp: has_cols_def recalc_table_def split: option.splits)
    ultimately show ?thesis
      using select_addr_logs(3) [of "[]"]
      by (intro exI [of _ ?c1])
         (simp add: dc_sqlite3_log_error_def dc_log_error_def trace_append)
  next
    case True
    then obtain tb where tb: "find_table (cn_db c) ''acpeerstates'' = Some tb"
      "''addr'' \<in> set (col_names tb)"
      by (auto simp: has_cols_def split: option.splits)
    define res where "res = map (\<lambda>r. cell r ''addr'') (tb_rows tb)"
    define r where "r = (if res = [] then SQLITE_DONE else SQLITE_ROW)"
    define c2 where "c2 = c\<lparr>cn_log := cn_log c @ [EvPrepare ?q, EvStep ?q []]\<rparr>"
    from True have p: "dc_sqlite3_prepare_v2 h (Some ?q) = (Some ?q, h\<lparr>m_cobj := Some ?c1\<rparr>)"
      using assms by (simp add: dc_sqlite3_prepare_v2_def sqlite3_prepare_v2_def)
    have "sqlite3_step ?c1 ?q [] =
            (fst (run [] ?q (cn_db ?c1)), fst (snd (run [] ?q (cn_db ?c1))),
             ?c1\<lparr>cn_log := cn_log ?c1 @ [EvStep ?q []], cn_db := snd (snd (run [] ?q (cn_db ?c1)))\<rparr>)"
      by (rule sqlite3_step_plain) (use True in simp_all)
    then have s: "sqlite3_step ?c1 ?q [] = (r, res, c2)"
      using tb(1) by (simp add: Let_def r_def res_def c2_def)
    let ?h2 = "h\<lparr>m_cobj := Some c2\<rparr>"
    have st: "step_stmt (h\<lparr>m_cobj := Some ?c1\<rparr>) (Some ?q) [] = (r, res, ?h2)"
      using s by (simp add: step_stmt_def)
    have h2: "m_cobj ?h2 = Some c2" "\<not> cn_readonly c2"
      using assms(2) by (simp_all add: c2_def)
    from resave_fold_frame [OF h2, of fp res] obtain db' where
      f: "fold (dc_apeerstate_resave fp) res ?h2 = ?h2\<lparr>m_cobj := Some (c2\<lparr>cn_db := db'\<rparr>)\<rparr>"
         "\<forall>T. name_key T \<noteq> ''acpeerstates'' \<longrightarrow> find_table db' T = find_table (cn_db c2) T"
         "find_table db' ''acpeerstates''
            = map_option (fold (resave_table fp) res) (find_table (cn_db c2) ''acpeerstates'')"
      by blast
    have lg: "trace (cn_log c2) = trace (cn_log c) @ [Submit ?q]"
      unfolding c2_def using select_addr_logs(3) [of "[EvStep ?q []]"] select_addr_logs(4)
      by (simp add: trace_append)
    have db2: "cn_db c2 = cn_db c" "cn_readonly c2 = cn_readonly c"
      by (simp_all add: c2_def)
    have rt: "recalc_table fp tb = fold (resave_table fp) res tb"
      using tb(2) by (simp add: recalc_table_def res_def)
    show ?thesis
    proof (cases "r = SQLITE_ROW")
      case True
      with p st f(1) have "recalc_pass fp h = ?h2\<lparr>m_cobj := Some (c2\<lparr>cn_db := db'\<rparr>)\<rparr>"
        by (simp add: recalc_pass_def)
      then show ?thesis
        using f(2,3) lg db2 tb(1) rt by (intro exI [of _ "c2\<lparr>cn_db := db'\<rparr>"]) simp
    next
      case False
      then have "res = []"
        by (simp add: r_def split: if_splits)
      with rt have "recalc_table fp tb = tb"
        by simp
      moreover from False p st have "recalc_pass fp h = ?h2"
        by (simp add: recalc_pass_def)
      ultimately show ?thesis
        using lg db2 tb(1) by (intro exI [of _ c2]) simp
    qed
  qed
qed

lemma tables_after_after_ladder: "tables_after T (S @ after_ladder v0) tbo = tables_after T S tbo"
  by (simp add: tables_after_def after_ladder_def)

lemma tables_after_key:
  assumes "name_key T = name_key T'"
  shows "tables_after T qs tbo = tables_after T' qs tbo"
proof -
  let ?db = "fold (exec_db False) qs (single_table T tbo)"
  have "tables_after T qs tbo = find_table ?db T"
    by (simp add: tables_local)
  also have "\<dots> = find_table ?db T'"
    by (rule find_table_key [OF assms])
  also have "\<dots> = tables_after T' qs (find_table (single_table T tbo) T')"
    by (rule tables_local)
  also have "find_table (single_table T tbo) T' = tbo"
    using find_table_key [OF assms [symmetric], of "single_table T tbo"] by simp
  finally show ?thesis .
qed

lemma subs_blocks:
  "subs (concat (map (block_trace v0) ts)) = concat (map (ladder_stmts v0) ts)"
  "wrs (concat (map (block_trace v0) ts)) = map (\<lambda>tgt. (''dbversion'', int_dec tgt)) ts"
  by (induction ts) (simp_all add: block_trace_def)

lemma subs_open_trace:
  "subs (open_trace first v0) = open_submitted first v0"
  "wrs (open_trace first v0) = open_writes first v0"
  by (simp_all add: open_trace_def open_submitted_def open_writes_def subs_blocks)

text \<open>
  A successful read-write open of a file whose database has no config table, or has the
  config table of this program: what the log holds, what the tables are, what the config
  table stores, and that the store is ready.
\<close>

lemma open_rw:
  assumes "env_threadsafe env" and "m_cobj t = None" and "pd_ok t"
    and "and flags MR_OPEN_READONLY = 0"
    and "find_table (opened_db env f) ''config'' = None \<or> config_ok (opened_db env f)"
    and "fst (dc_sqlite3_open fp env (Some t) (Some f) flags) = 1"
    and "first = (find_table (opened_db env f) ''config'' = None)"
    and "v0 = (if first then 0 else stored_version (opened_db env f))"
  shows "\<exists>t' c'. dc_sqlite3_open fp env (Some t) (Some f) flags = (1, Some t')
           \<and> m_cobj t' = Some c' \<and> store_ready t'
           \<and> trace (cn_log c') = open_trace first v0
           \<and> (\<forall>T. name_key T \<noteq> ''config'' \<longrightarrow>
                 find_table (cn_db c') T
                   = opened_table fp first v0 T (find_table (opened_db env f) T))
           \<and> (open_writes first v0 = [] \<longrightarrow>
                 find_table (cn_db c') ''config'' = find_table (opened_db env f) ''config'')
           \<and> (open_writes first v0 \<noteq> [] \<longrightarrow>
                 stored_text (cn_db c') (fst (last (open_writes first v0)))
                   = Some (snd (last (open_writes first v0))))"
proof -
  let ?db0 = "opened_db env f"
  define c0 where "c0 = \<lparr>cn_db = ?db0, cn_readonly = False, cn_snapshot = None, cn_log = []\<rparr>"
  define t1 where "t1 = t\<lparr>m_cobj := Some c0\<rparr>"
  have ov: "sqlite3_open_v2 env f (and flags MR_OPEN_READONLY \<noteq> 0) = (SQLITE_OK, Some c0)"
    using assms(4) by (simp add: sqlite3_open_v2_def c0_def opened_db_def split: option.splits)
  have t1: "m_cobj t1 = Some c0" "pd_ok t1" "cn_db c0 = ?db0" "\<not> cn_readonly c0" "cn_log c0 = []"
    using assms(3) by (simp_all add: t1_def c0_def)
  define X0 where "X0 = map Submit (before_ladder first)
                          @ (if first then [Write ''dbversion'' (int_dec 0)] else [])"
  have op: "dc_sqlite3_open fp env (Some t) (Some f) flags =
              (case open_tables t1 of
                 (ok, before, t2) \<Rightarrow>
                   if \<not> ok then open_cleanup (Some t2)
                   else
                     (let vs = open_ladder \<lparr>hnd = t2, dbversion_before_update = before,
                                            dbversion = before, recalc_fingerprints = 0\<rparr>;
                          t3 = (if recalc_fingerprints vs \<noteq> 0
                                then recalc_pass fp (hnd vs) else hnd vs)
                      in (1, Some (dc_log_info t3 ''Opened %s successfully.''))))"
    using assms(1,2,4) ov by (simp add: dc_sqlite3_open_def t1_def)
  have "\<exists>h. open_tables t1 = (True, v0, h) \<and> evolves t1 X0 h"
  proof (cases first)
    case True
    then have nc: "find_table (cn_db c0) ''config'' = None"
      using assms(7) t1(3) by simp
    from open_tables_first_time [OF t1(1,2) nc t1(4)] obtain ok h where
      a: "open_tables t1 = (ok, 0, h)"
         "ok \<longrightarrow> evolves t1 (map Submit (before_ladder True) @ [Write ''dbversion'' (int_dec 0)]) h"
      by blast
    have ok
    proof (rule ccontr)
      assume "\<not> ok"
      with op a(1) have "fst (dc_sqlite3_open fp env (Some t) (Some f) flags) = 0"
        by (simp add: open_cleanup_def)
      with assms(6) show False
        by simp
    qed
    with a True assms(8) show ?thesis
      by (auto simp: X0_def)
  next
    case False
    then have cf: "config_ok (cn_db c0)"
      using assms(5,7) t1(3) by auto
    from open_tables_existing [OF t1(1,2) cf t1(4)] False assms(8) t1(3) show ?thesis
      by (auto simp: X0_def)
  qed
  then obtain h where h: "open_tables t1 = (True, v0, h)" and e0: "evolves t1 X0 h"
    by blast
  define vs0 where "vs0 = \<lparr>hnd = h, dbversion_before_update = v0, dbversion = v0,
                            recalc_fingerprints = 0\<rparr>"
  define Xl where "Xl = concat (map (block_trace v0) (filter (\<lambda>tgt. v0 < tgt) ladder_targets))"
  have "store_ready (hnd vs0)" "dbversion_before_update vs0 = v0" "dbversion vs0 = v0"
    using evolves_ready [OF e0] by (simp_all add: vs0_def)
  from open_ladder_evolves [OF this] have
    e1: "evolves h Xl (hnd (open_ladder vs0))"
    and rc: "recalc_fingerprints (open_ladder vs0) \<noteq> 0 \<longleftrightarrow> v0 < 34"
    by (simp_all add: vs0_def Xl_def)
  define h3 where "h3 = hnd (open_ladder vs0)"
  define S where "S = subs (X0 @ Xl)"
  from evolves_trans [OF e0 e1] t1(1) obtain c3 where
    c3: "m_cobj h3 = Some c3" "store_ready h3"
        "trace (cn_log c3) = trace (cn_log c0) @ (X0 @ Xl)"
        "\<And>T. name_key T \<noteq> ''config'' \<Longrightarrow>
           find_table (cn_db c3) T = tables_after T S (find_table (cn_db c0) T)"
        "wrs (X0 @ Xl) = [] \<Longrightarrow> find_table (cn_db c3) ''config'' = find_table (cn_db c0) ''config''"
        "wrs (X0 @ Xl) \<noteq> [] \<Longrightarrow>
           stored_text (cn_db c3) (fst (last (wrs (X0 @ Xl)))) = Some (snd (last (wrs (X0 @ Xl))))"
    unfolding evolves_def h3_def S_def by auto
  from c3(2) have r3: "pd_ok h3" "config_ok (cn_db c3)" "\<not> cn_readonly c3"
    using c3(1) by (auto elim: store_readyE)
  define t3 where "t3 = (if v0 < 34 then recalc_pass fp h3 else h3)"
  have "\<exists>c4. m_cobj t3 = Some c4 \<and> m_pd t3 = m_pd h3 \<and> cn_readonly c4 = cn_readonly c3
          \<and> trace (cn_log c4) = trace (cn_log c3) @ map Submit (after_ladder v0)
          \<and> (\<forall>T. name_key T \<noteq> ''acpeerstates'' \<longrightarrow> find_table (cn_db c4) T = find_table (cn_db c3) T)
          \<and> find_table (cn_db c4) ''acpeerstates''
               = (if v0 < 34 then map_option (recalc_table fp) (find_table (cn_db c3) ''acpeerstates'')
                  else find_table (cn_db c3) ''acpeerstates'')"
  proof (cases "v0 < 34")
    case True
    with recalc_pass_frame [OF c3(1) r3(3), of fp] show ?thesis
      by (simp add: t3_def after_ladder_def)
  next
    case False
    with c3(1) show ?thesis
      by (simp add: t3_def after_ladder_def)
  qed
  then obtain c4 where
    c4: "m_cobj t3 = Some c4" "m_pd t3 = m_pd h3" "cn_readonly c4 = cn_readonly c3"
        "trace (cn_log c4) = trace (cn_log c3) @ map Submit (after_ladder v0)"
        "\<And>T. name_key T \<noteq> ''acpeerstates'' \<Longrightarrow> find_table (cn_db c4) T = find_table (cn_db c3) T"
        "find_table (cn_db c4) ''acpeerstates''
           = (if v0 < 34 then map_option (recalc_table fp) (find_table (cn_db c3) ''acpeerstates'')
              else find_table (cn_db c3) ''acpeerstates'')"
    by blast
  define t' where "t' = dc_log_info t3 ''Opened %s successfully.''"
  have t': "m_cobj t' = Some c4" "m_pd t' = m_pd h3"
    using c4(1,2) by (simp_all add: t'_def dc_log_info_def)
  have res: "dc_sqlite3_open fp env (Some t) (Some f) flags = (1, Some t')"
    using op h rc by (simp add: Let_def vs0_def h3_def t3_def t'_def)
  have cfg4: "find_table (cn_db c4) ''config'' = find_table (cn_db c3) ''config''"
    by (rule c4(5)) simp
  have rdy: "store_ready t'"
    using r3 c4(3) config_ok_cong [OF cfg4] pd_ok_cong [OF t'(2)]
    by (intro store_readyI [OF t'(1)]) simp_all
  have X: "open_trace first v0 = (X0 @ Xl) @ map Submit (after_ladder v0)"
    by (simp add: open_trace_def X0_def Xl_def)
  have SW: "open_submitted first v0 = S @ after_ladder v0" "open_writes first v0 = wrs (X0 @ Xl)"
    using subs_open_trace [of first v0] unfolding X S_def by simp_all
  have tr: "trace (cn_log c4) = open_trace first v0"
    unfolding X c4(4) c3(3) t1(5) by simp
  have tabs: "\<forall>T. name_key T \<noteq> ''config'' \<longrightarrow>
                find_table (cn_db c4) T = opened_table fp first v0 T (find_table ?db0 T)"
  proof (intro allI impI)
    fix T
    assume nc: "name_key T \<noteq> ''config''"
    show "find_table (cn_db c4) T = opened_table fp first v0 T (find_table ?db0 T)"
    proof (cases "name_key T = ''acpeerstates''")
      case False
      with c4(5) [OF False] c3(4) [OF nc] t1(3) show ?thesis
        unfolding opened_table_def SW tables_after_after_ladder by simp
    next
      case True
      then have k: "name_key T = name_key ''acpeerstates''"
        by simp
      have "name_key ''acpeerstates'' \<noteq> ''config''"
        by simp
      note a3 = c3(4) [OF this]
      have "find_table (cn_db c4) T = find_table (cn_db c4) ''acpeerstates''"
        by (rule find_table_key [OF k])
      also have "\<dots> = (if v0 < 34
                         then map_option (recalc_table fp)
                                (tables_after ''acpeerstates'' S (find_table (cn_db c0) ''acpeerstates''))
                         else tables_after ''acpeerstates'' S (find_table (cn_db c0) ''acpeerstates''))"
        unfolding c4(6) a3 by simp
      also have "tables_after ''acpeerstates'' S (find_table (cn_db c0) ''acpeerstates'')
                   = tables_after T S (find_table ?db0 T)"
        unfolding t1(3) find_table_key [OF k, of ?db0] by (rule tables_after_key [OF k [symmetric]])
      finally show ?thesis
        unfolding opened_table_def SW tables_after_after_ladder using True by simp
    qed
  qed
  have w0: "open_writes first v0 = [] \<longrightarrow>
              find_table (cn_db c4) ''config'' = find_table ?db0 ''config''"
    unfolding SW cfg4 using c3(5) t1(3) by simp
  have w1: "open_writes first v0 \<noteq> [] \<longrightarrow>
              stored_text (cn_db c4) (fst (last (open_writes first v0)))
                = Some (snd (last (open_writes first v0)))"
    unfolding SW stored_text_cong [OF cfg4] using c3(6) by simp
  show ?thesis
    using res t'(1) rdy tr tabs w0 w1
    by (intro exI [of _ t'] exI [of _ c4]) simp
qed

lemmas stmts_defs = init_stmts_def stmts_1_def stmts_2_def stmts_7_def stmts_10_def stmts_12_def
  stmts_17_def stmts_18_def stmts_27_def stmts_34_def stmts_39_def stmts_40_def
  copy_gossip_key_def copy_public_key_def

lemmas open_submitted_defs = open_submitted_def before_ladder_def after_ladder_def
  ladder_targets_def ladder_stmts_def

lemmas engine_defs = tables_after_def table_after_def exec_db_def single_table_def find_table_def
  has_cols_def col_names_def put_table_def make_row_def pk_col_def cell_def next_rowid_def
  row_ids_def Let_def

lemma open_rw_unfold:
  assumes "env_threadsafe env" and "m_cobj t = None" and "and flags MR_OPEN_READONLY = 0"
  shows "dc_sqlite3_open fp env (Some t) (Some f) flags =
           (case open_tables (t\<lparr>m_cobj := Some \<lparr>cn_db = opened_db env f, cn_readonly = False,
                                                  cn_snapshot = None, cn_log = []\<rparr>\<rparr>) of
              (ok, before, t2) \<Rightarrow>
                if \<not> ok then open_cleanup (Some t2)
                else
                  (let vs = open_ladder \<lparr>hnd = t2, dbversion_before_update = before,
                                         dbversion = before, recalc_fingerprints = 0\<rparr>;
                       t3 = (if recalc_fingerprints vs \<noteq> 0
                             then recalc_pass fp (hnd vs) else hnd vs)
                   in (1, Some (dc_log_info t3 ''Opened %s successfully.''))))"
  using assms
  by (simp add: dc_sqlite3_open_def sqlite3_open_v2_def opened_db_def split: option.splits)

lemma init_tables_present:
  "list_all (\<lambda>n. case tables_after n init_stmts (find_table empty_database n) of
                    None \<Rightarrow> False | Some tb \<Rightarrow> tb_cols tb \<noteq> [])
     [''config'', ''contacts'', ''chats'', ''chats_contacts'', ''msgs'', ''jobs'']"
  by (simp add: empty_database_def init_stmts_def engine_defs)

text \<open>A read-write open succeeds on a new file and on a database with a config table.\<close>

lemma open_rw_succeeds:
  assumes "env_threadsafe env" and "m_cobj t = None" and "pd_ok t"
    and "and flags MR_OPEN_READONLY = 0"
    and "opened_db env f = empty_database \<or> config_ok (opened_db env f)"
  shows "fst (dc_sqlite3_open fp env (Some t) (Some f) flags) = 1"
proof -
  let ?c0 = "\<lparr>cn_db = opened_db env f, cn_readonly = False, cn_snapshot = None, cn_log = []\<rparr>"
  let ?t1 = "t\<lparr>m_cobj := Some ?c0\<rparr>"
  have t1: "m_cobj ?t1 = Some ?c0" "pd_ok ?t1" "\<not> cn_readonly ?c0"
    using assms(3) by simp_all
  have "\<exists>v h. open_tables ?t1 = (True, v, h)"
  proof (cases "config_ok (opened_db env f)")
    case True
    then have "config_ok (cn_db ?c0)"
      by simp
    from open_tables_existing [OF t1(1,2) this t1(3)] show ?thesis
      by blast
  next
    case False
    with assms(5) have e: "opened_db env f = empty_database"
      by simp
    then have "find_table (cn_db ?c0) ''config'' = None"
      by (simp add: empty_database_def find_table_def)
    from open_tables_first_time [OF t1(1,2) this t1(3)] init_tables_present e show ?thesis
      by auto
  qed
  then obtain v h where "open_tables ?t1 = (True, v, h)"
    by blast
  then show ?thesis
    unfolding open_rw_unfold [OF assms(1,2,4)] by (simp add: Let_def)
qed

section \<open>The ladder reaches version 40\<close>

lemma last_ladder_target:
  assumes "v0 < 40"
  shows "filter (\<lambda>tgt. v0 < tgt) ladder_targets \<noteq> []"
    and "last (filter (\<lambda>tgt. v0 < tgt) ladder_targets) = 40"
proof -
  have l: "ladder_targets = butlast ladder_targets @ [40]"
    by (simp add: ladder_targets_def)
  have "filter (\<lambda>tgt. v0 < tgt) ladder_targets
          = filter (\<lambda>tgt. v0 < tgt) (butlast ladder_targets) @ [40]"
    by (subst l) (simp add: assms)
  then show "filter (\<lambda>tgt. v0 < tgt) ladder_targets \<noteq> []"
    and "last (filter (\<lambda>tgt. v0 < tgt) ladder_targets) = 40"
    by simp_all
qed

lemma last_open_write:
  assumes "v0 < 40"
  shows "open_writes first v0 \<noteq> []" and "last (open_writes first v0) = (''dbversion'', int_dec 40)"
  using last_ladder_target [OF assms] by (simp_all add: open_writes_def last_map)

text \<open>
  Claim C1. Take a thread-safe engine, a closed handle with a consistent cache, flags
  without the READONLY bit, and a file that is new, or whose database has no config
  table (first-time initialisation, version 0), or has this program's config table with a
  stored version below 40. If the open returns 1, then
  \<^item> the log of the connection holds, in this order: the one-shot statements of the part
    before the ladder (with the write of version 0 on first-time initialisation); then,
    for each target among 1, 2, 7, 10, 12, 17, 18, 27, 34, 39, 40 that exceeds the version
    found, in ascending order and for no other target, the statements of the block
    followed by the write of the target as the config value dbversion; then the SELECT of
    the fingerprint pass if version 34 was crossed;
  \<^item> every table other than config is what the engine makes of the table found in the file
    by running these statements on it (acpeerstates has then gone through the
    fingerprint pass if version 34 was crossed);
  \<^item> the config table stores the text 40 under dbversion, and
    \<open>get_config_int("dbversion")\<close> on the opened handle returns 40, whatever the default.
\<close>

theorem C1_open_runs_ladder:
  assumes "env_threadsafe env" and "m_cobj t = None" and "pd_ok t"
    and "and flags MR_OPEN_READONLY = 0"
    and "find_table (opened_db env f) ''config'' = None
         \<or> (config_ok (opened_db env f) \<and> stored_version (opened_db env f) < 40)"
    and "fst (dc_sqlite3_open fp env (Some t) (Some f) flags) = 1"
    and "first = (find_table (opened_db env f) ''config'' = None)"
    and "v0 = (if first then 0 else stored_version (opened_db env f))"
  shows "\<exists>t' c'. dc_sqlite3_open fp env (Some t) (Some f) flags = (1, Some t')
           \<and> m_cobj t' = Some c'
           \<and> trace (cn_log c') = open_trace first v0
           \<and> (\<forall>T. name_key T \<noteq> ''config'' \<longrightarrow>
                 find_table (cn_db c') T
                   = opened_table fp first v0 T (find_table (opened_db env f) T))
           \<and> stored_text (cn_db c') ''dbversion'' = Some (int_dec 40)
           \<and> fst (dc_sqlite3_get_config_int t' (Some ''dbversion'') d) = 40"
proof -
  have cfg: "find_table (opened_db env f) ''config'' = None \<or> config_ok (opened_db env f)"
    using assms(5) by blast
  have v: "v0 < 40"
    using assms(5,7,8) by auto
  from open_rw [OF assms(1,2,3,4) cfg assms(6,7,8)] obtain t' c' where
    o: "dc_sqlite3_open fp env (Some t) (Some f) flags = (1, Some t')"
       "m_cobj t' = Some c'" "store_ready t'"
       "trace (cn_log c') = open_trace first v0"
       "\<forall>T. name_key T \<noteq> ''config'' \<longrightarrow>
          find_table (cn_db c') T = opened_table fp first v0 T (find_table (opened_db env f) T)"
       "open_writes first v0 \<noteq> [] \<longrightarrow>
          stored_text (cn_db c') (fst (last (open_writes first v0)))
            = Some (snd (last (open_writes first v0)))"
    by (elim exE conjE) (rule that)
  from o(6) last_open_write [OF v, of first]
  have st: "stored_text (cn_db c') ''dbversion'' = Some (int_dec 40)"
    by simp
  from o(3) o(2) have r: "pd_ok t'" "config_ok (cn_db c')"
    by (auto elim: store_readyE)
  have g: "fst (dc_sqlite3_get_config_int t' (Some ''dbversion'') d) = 40"
    using get_config_int_stored [OF o(2) r, of "''dbversion''" d] st
    by (simp add: atol_int_dec32 to_int32_id)
  show ?thesis
    apply (rule exI [of _ t'])
    apply (rule exI [of _ c'])
    apply (intro conjI)
    apply (rule o(1))
    apply (rule o(2))
    apply (rule o(4))
    apply (rule o(5))
    apply (rule st)
    apply (rule g)
    done
qed

lemma fresh_facts:
  "env_threadsafe fresh_env" "m_cobj (dc_sqlite3_new []) = None" "pd_ok (dc_sqlite3_new [])"
  "and 0 MR_OPEN_READONLY = 0"
  by (simp_all add: fresh_env_def dc_sqlite3_new_def pd_ok_def all_pd_idx_def)

lemma fresh_db:
  "opened_db fresh_env f = empty_database"
  "find_table (opened_db fresh_env f) ''config'' = None"
  by (simp_all add: fresh_env_def opened_db_def)

lemma int_dec_targets:
  "int_dec 0 = ''0''" "int_dec 1 = ''1''" "int_dec 2 = ''2''" "int_dec 7 = ''7''"
  "int_dec 10 = ''10''" "int_dec 12 = ''12''" "int_dec 17 = ''17''" "int_dec 18 = ''18''"
  "int_dec 27 = ''27''" "int_dec 34 = ''34''" "int_dec 39 = ''39''" "int_dec 40 = ''40''"
  by code_simp+

lemma fresh_tables:
  "list_all (\<lambda>T. opened_table fp True 0 T None \<noteq> None)
     [''contacts'', ''chats'', ''chats_contacts'', ''msgs'', ''jobs'', ''leftgrps'', ''keypairs'',
      ''acpeerstates'', ''msgs_mdns'', ''tokens'']"
  by (simp add: opened_table_def open_submitted_defs stmts_defs engine_defs)

theorem C1_open_runs_ladder_witness:
  "env_threadsafe fresh_env \<and> m_cobj (dc_sqlite3_new []) = None \<and> pd_ok (dc_sqlite3_new [])
   \<and> and 0 MR_OPEN_READONLY = 0
   \<and> find_table (opened_db fresh_env ''/tmp/x.db'') ''config'' = None
   \<and> fst (dc_sqlite3_open fp_id fresh_env (Some (dc_sqlite3_new [])) (Some ''/tmp/x.db'') 0) = 1
   \<and> (\<exists>t' c'. dc_sqlite3_open fp_id fresh_env (Some (dc_sqlite3_new [])) (Some ''/tmp/x.db'') 0
                 = (1, Some t')
          \<and> m_cobj t' = Some c'
          \<and> trace (cn_log c') = open_trace True 0
          \<and> wrs (trace (cn_log c')) =
              map (Pair ''dbversion'') [''0'', ''1'', ''2'', ''7'', ''10'', ''12'', ''17'', ''18'',
                                        ''27'', ''34'', ''39'', ''40'']
          \<and> list_all (\<lambda>T. find_table (cn_db c') T \<noteq> None)
               [''contacts'', ''chats'', ''chats_contacts'', ''msgs'', ''jobs'', ''leftgrps'',
                ''keypairs'', ''acpeerstates'', ''msgs_mdns'', ''tokens'']
          \<and> stored_text (cn_db c') ''dbversion'' = Some ''40''
          \<and> fst (dc_sqlite3_get_config_int t' (Some ''dbversion'') 0) = 40)"
proof -
  note f = fresh_facts fresh_db [of "''/tmp/x.db''"]
  have h5: "find_table (opened_db fresh_env ''/tmp/x.db'') ''config'' = None
            \<or> (config_ok (opened_db fresh_env ''/tmp/x.db'')
                \<and> stored_version (opened_db fresh_env ''/tmp/x.db'') < 40)"
    using f(6) by simp
  have h6: "fst (dc_sqlite3_open fp_id fresh_env (Some (dc_sqlite3_new [])) (Some ''/tmp/x.db'') 0) = 1"
    by (rule open_rw_succeeds [OF f(1,2,3,4)]) (simp add: f(5))
  have h7: "True = (find_table (opened_db fresh_env ''/tmp/x.db'') ''config'' = None)"
    using f(6) by simp
  have h8: "0 = (if True then 0 else stored_version (opened_db fresh_env ''/tmp/x.db''))"
    by simp
  have w: "open_writes True 0 =
             map (Pair ''dbversion'') [''0'', ''1'', ''2'', ''7'', ''10'', ''12'', ''17'', ''18'',
                                       ''27'', ''34'', ''39'', ''40'']"
    by (simp add: open_writes_def ladder_targets_def int_dec_targets)
  from C1_open_runs_ladder [OF f(1,2,3,4) h5 h6 h7 h8, of 0] obtain t' c' where
    o: "dc_sqlite3_open fp_id fresh_env (Some (dc_sqlite3_new [])) (Some ''/tmp/x.db'') 0
          = (1, Some t')"
       "m_cobj t' = Some c'"
       "trace (cn_log c') = open_trace True 0"
       "\<forall>T. name_key T \<noteq> ''config'' \<longrightarrow>
          find_table (cn_db c') T
            = opened_table fp_id True 0 T (find_table (opened_db fresh_env ''/tmp/x.db'') T)"
       "stored_text (cn_db c') ''dbversion'' = Some (int_dec 40)"
       "fst (dc_sqlite3_get_config_int t' (Some ''dbversion'') 0) = 40"
    by (elim exE conjE) (rule that)
  have wr: "wrs (trace (cn_log c')) =
              map (Pair ''dbversion'') [''0'', ''1'', ''2'', ''7'', ''10'', ''12'', ''17'', ''18'',
                                        ''27'', ''34'', ''39'', ''40'']"
    unfolding o(3) subs_open_trace w ..
  have tb: "list_all (\<lambda>T. find_table (cn_db c') T \<noteq> None)
              [''contacts'', ''chats'', ''chats_contacts'', ''msgs'', ''jobs'', ''leftgrps'',
               ''keypairs'', ''acpeerstates'', ''msgs_mdns'', ''tokens'']"
    using fresh_tables [of fp_id] o(4) by (simp add: f(5))
  have st: "stored_text (cn_db c') ''dbversion'' = Some ''40''"
    using o(5) by (simp add: int_dec_targets)
  have "\<exists>t' c'. dc_sqlite3_open fp_id fresh_env (Some (dc_sqlite3_new [])) (Some ''/tmp/x.db'') 0
                 = (1, Some t')
          \<and> m_cobj t' = Some c'
          \<and> trace (cn_log c') = open_trace True 0
          \<and> wrs (trace (cn_log c')) =
              map (Pair ''dbversion'') [''0'', ''1'', ''2'', ''7'', ''10'', ''12'', ''17'', ''18'',
                                        ''27'', ''34'', ''39'', ''40'']
          \<and> list_all (\<lambda>T. find_table (cn_db c') T \<noteq> None)
               [''contacts'', ''chats'', ''chats_contacts'', ''msgs'', ''jobs'', ''leftgrps'',
                ''keypairs'', ''acpeerstates'', ''msgs_mdns'', ''tokens'']
          \<and> stored_text (cn_db c') ''dbversion'' = Some ''40''
          \<and> fst (dc_sqlite3_get_config_int t' (Some ''dbversion'') 0) = 40"
    apply (rule exI [of _ t'])
    apply (rule exI [of _ c'])
    apply (intro conjI)
    apply (rule o(1))
    apply (rule o(2))
    apply (rule o(3))
    apply (rule wr)
    apply (rule tb)
    apply (rule st)
    apply (rule o(6))
    done
  with f(1,2,3,4,6) h6 show ?thesis
    by (intro conjI)
qed

section \<open>The copy of the verified keys\<close>







section \<open>The reserved rows\<close>

lemma fresh_contacts:
  "\<exists>tb. tables_after ''contacts'' (open_submitted True 0) None = Some tb
     \<and> map (\<lambda>r. (cell r ''id'', cell r ''name'', cell r ''origin'')) (tb_rows tb) =
         [(VInt 1, VText ''self'', VInt 262144), (VInt 2, VText ''device'', VInt 262144),
          (VInt 3, VText ''rsvd'', VInt 262144), (VInt 4, VText ''rsvd'', VInt 262144),
          (VInt 5, VText ''rsvd'', VInt 262144), (VInt 6, VText ''rsvd'', VInt 262144),
          (VInt 7, VText ''rsvd'', VInt 262144), (VInt 8, VText ''rsvd'', VInt 262144),
          (VInt 9, VText ''rsvd'', VInt 262144)]
     \<and> next_rowid (pk_col tb) (tb_rows tb) = 10 \<and> pk_col tb = Some ''id''"
  by (simp add: open_submitted_defs stmts_defs engine_defs)

lemma fresh_chats:
  "\<exists>tb. tables_after ''chats'' (open_submitted True 0) None = Some tb
     \<and> map (\<lambda>r. cell r ''id'') (tb_rows tb) =
         [VInt 1, VInt 2, VInt 3, VInt 4, VInt 5, VInt 6, VInt 7, VInt 8, VInt 9]
     \<and> next_rowid (pk_col tb) (tb_rows tb) = 10 \<and> pk_col tb = Some ''id''"
  by (simp add: open_submitted_defs stmts_defs engine_defs)

lemma fresh_msgs:
  "\<exists>tb. tables_after ''msgs'' (open_submitted True 0) None = Some tb
     \<and> map (\<lambda>r. cell r ''id'') (tb_rows tb) =
         [VInt 1, VInt 2, VInt 3, VInt 4, VInt 5, VInt 6, VInt 7, VInt 8, VInt 9]
     \<and> next_rowid (pk_col tb) (tb_rows tb) = 10 \<and> pk_col tb = Some ''id''"
  by (simp add: open_submitted_defs stmts_defs engine_defs)

lemma ids_reserved:
  assumes "map (\<lambda>r. cell r ''id'') (tb_rows tb) =
             [VInt 1, VInt 2, VInt 3, VInt 4, VInt 5, VInt 6, VInt 7, VInt 8, VInt 9]"
  shows "reserved_ids tb"
  unfolding reserved_ids_def
proof
  fix i :: int
  assume "i \<in> {1..9}"
  then have "i = 1 \<or> i = 2 \<or> i = 3 \<or> i = 4 \<or> i = 5 \<or> i = 6 \<or> i = 7 \<or> i = 8 \<or> i = 9"
    by auto
  then have "VInt i \<in> set (map (\<lambda>r. cell r ''id'') (tb_rows tb))"
    unfolding assms by auto
  then show "\<exists>r\<in>set (tb_rows tb). cell r ''id'' = VInt i"
    by auto
qed


lemma contacts_reserved:
  assumes "map (\<lambda>r. (cell r ''id'', cell r ''name'', cell r ''origin'')) (tb_rows tb) =
         [(VInt 1, VText ''self'', VInt 262144), (VInt 2, VText ''device'', VInt 262144),
          (VInt 3, VText ''rsvd'', VInt 262144), (VInt 4, VText ''rsvd'', VInt 262144),
          (VInt 5, VText ''rsvd'', VInt 262144), (VInt 6, VText ''rsvd'', VInt 262144),
          (VInt 7, VText ''rsvd'', VInt 262144), (VInt 8, VText ''rsvd'', VInt 262144),
          (VInt 9, VText ''rsvd'', VInt 262144)]"
  shows "reserved_ids tb"
    and "\<exists>r\<in>set (tb_rows tb). cell r ''id'' = VInt 1"
    and "\<forall>r\<in>set (tb_rows tb). cell r ''id'' = VInt 1 \<longrightarrow> cell r ''name'' = VText ''self''"
    and "\<forall>r\<in>set (tb_rows tb). cell r ''origin'' = VInt 262144"
proof -
  have "map fst (map (\<lambda>r. (cell r ''id'', cell r ''name'', cell r ''origin'')) (tb_rows tb)) =
          [VInt 1, VInt 2, VInt 3, VInt 4, VInt 5, VInt 6, VInt 7, VInt 8, VInt 9]"
    unfolding assms by simp
  then have ids: "map (\<lambda>r. cell r ''id'') (tb_rows tb) =
          [VInt 1, VInt 2, VInt 3, VInt 4, VInt 5, VInt 6, VInt 7, VInt 8, VInt 9]"
    by (simp add: o_def)
  then show "reserved_ids tb"
    by (rule ids_reserved)
  have "VInt 1 \<in> set (map (\<lambda>r. cell r ''id'') (tb_rows tb))"
    unfolding ids by simp
  then show "\<exists>r\<in>set (tb_rows tb). cell r ''id'' = VInt 1"
    by auto
  have mem: "(cell r ''id'', cell r ''name'', cell r ''origin'')
               \<in> set (map (\<lambda>r. (cell r ''id'', cell r ''name'', cell r ''origin'')) (tb_rows tb))"
    if "r \<in> set (tb_rows tb)" for r
    using that by simp
  show "\<forall>r\<in>set (tb_rows tb). cell r ''id'' = VInt 1 \<longrightarrow> cell r ''name'' = VText ''self''"
  proof (intro ballI impI)
    fix r
    assume "r \<in> set (tb_rows tb)" and "cell r ''id'' = VInt 1"
    with mem [of r] show "cell r ''name'' = VText ''self''"
      unfolding assms by simp
  qed
  show "\<forall>r\<in>set (tb_rows tb). cell r ''origin'' = VInt 262144"
  proof
    fix r
    assume "r \<in> set (tb_rows tb)"
    with mem [of r] show "cell r ''origin'' = VInt 262144"
      unfolding assms by auto
  qed
qed

lemma fold_max_ge: "x \<in> set xs \<Longrightarrow> x \<le> fold max xs (a::int)"
  unfolding Max.set_eq_fold [symmetric] by (rule Max_ge) simp_all

text \<open>
  While a table holds the reserved rows, no row that the engine builds for an INSERT has
  an id from 1 to 9: an assigned id exceeds every id present, and a given id that is
  present is refused.
\<close>

lemma reserved_ids_guard:
  assumes "reserved_ids tb" and "pk_col tb = Some ''id''" and "make_row tb cs vs = Some r"
    and "i \<in> {1..9}"
  shows "cell r ''id'' \<noteq> VInt i"
proof -
  define r0 where "r0 = map (\<lambda>cd. (cd_name cd, case map_of (zip cs vs) (cd_name cd) of
                                                  None \<Rightarrow> cd_default cd | Some v \<Rightarrow> v)) (tb_cols tb)"
  from assms(1,4) have "\<exists>r\<in>set (tb_rows tb). cell r ''id'' = VInt i"
    unfolding reserved_ids_def by (rule bspec)
  then obtain ri where ri: "ri \<in> set (tb_rows tb)" "cell ri ''id'' = VInt i"
    by (rule bexE)
  have "(9::int) \<in> {1..9}"
    by simp
  with assms(1) have "\<exists>r\<in>set (tb_rows tb). cell r ''id'' = VInt 9"
    unfolding reserved_ids_def by (rule bspec)
  then obtain r9 where r9: "r9 \<in> set (tb_rows tb)" "cell r9 ''id'' = VInt 9"
    by (rule bexE)
  have mr: "make_row tb cs vs =
              (case cell r0 ''id'' of
                 VNull \<Rightarrow> Some (AList.update ''id'' (VInt (next_rowid (Some ''id'') (tb_rows tb))) r0)
               | v \<Rightarrow> if v \<in> set (map (\<lambda>r'. cell r' ''id'') (tb_rows tb)) then None else Some r0)"
    unfolding make_row_def Let_def assms(2) r0_def by simp
  show ?thesis
  proof (cases "cell r0 ''id''")
    case VNull
    with mr assms(3) have r: "r = AList.update ''id'' (VInt (next_rowid (Some ''id'') (tb_rows tb))) r0"
      by simp
    have "9 \<in> set (case cell r9 ''id'' of VInt i \<Rightarrow> [i] | _ \<Rightarrow> [])"
      by (simp add: r9(2))
    with r9(1) have "9 \<in> set (row_ids (Some ''id'') (tb_rows tb))"
      unfolding row_ids_def by simp (rule bexI [of _ r9], simp_all)
    then have "9 \<le> fold max (row_ids (Some ''id'') (tb_rows tb)) 0"
      by (rule fold_max_ge)
    then have "10 \<le> next_rowid (Some ''id'') (tb_rows tb)"
      by (simp add: next_rowid_def)
    with assms(4) show ?thesis
      by (simp add: r cell_update)
  next
    case (VInt n)
    with mr assms(3) have eq: "r = r0"
      and new: "VInt n \<notin> set (map (\<lambda>r'. cell r' ''id'') (tb_rows tb))"
      by (simp_all split: if_splits)
    from ri have "VInt i \<in> set (map (\<lambda>r'. cell r' ''id'') (tb_rows tb))"
      by (simp add: image_iff bexI [of _ ri])
    with new eq VInt show ?thesis
      by auto
  next
    case (VText x)
    with mr assms(3) have "r = r0"
      by (simp split: if_splits)
    with VText show ?thesis
      by simp
  qed
qed

text \<open>
  Claim C6. Take a thread-safe engine, a closed handle with a consistent cache, flags
  without the READONLY bit, and a file that is new or holds an empty database. Then the
  open returns 1, and in the opened store each of the tables contacts, chats and msgs has
  a row with id \<open>i\<close> for every \<open>i\<close> from 1 to 9; contacts has a row with id 1, every
  contacts row with id 1 has the name self, and every contacts row has the origin 262144
  (all of them are reserved rows at this point); the id the engine assigns to the next
  row inserted without an id is 10 in each of the three tables; and no row that the
  engine builds for an INSERT into one of the three tables, with or without an id, has an
  id from 1 to 9.
\<close>

theorem C6_reserved_rows:
  assumes "env_threadsafe env" and "m_cobj t = None" and "pd_ok t"
    and "and flags MR_OPEN_READONLY = 0"
    and "opened_db env f = empty_database"
  shows "\<exists>t' c' contacts chats msgs.
           dc_sqlite3_open fp env (Some t) (Some f) flags = (1, Some t')
           \<and> m_cobj t' = Some c'
           \<and> find_table (cn_db c') ''contacts'' = Some contacts
           \<and> find_table (cn_db c') ''chats'' = Some chats
           \<and> find_table (cn_db c') ''msgs'' = Some msgs
           \<and> reserved_ids contacts \<and> reserved_ids chats \<and> reserved_ids msgs
           \<and> (\<exists>r\<in>set (tb_rows contacts). cell r ''id'' = VInt 1)
           \<and> (\<forall>r\<in>set (tb_rows contacts). cell r ''id'' = VInt 1 \<longrightarrow> cell r ''name'' = VText ''self'')
           \<and> (\<forall>r\<in>set (tb_rows contacts). cell r ''origin'' = VInt 262144)
           \<and> next_rowid (pk_col contacts) (tb_rows contacts) = 10
           \<and> next_rowid (pk_col chats) (tb_rows chats) = 10
           \<and> next_rowid (pk_col msgs) (tb_rows msgs) = 10
           \<and> (\<forall>cs vs r i. i \<in> {1..9}
                  \<and> (make_row contacts cs vs = Some r \<or> make_row chats cs vs = Some r
                       \<or> make_row msgs cs vs = Some r)
                  \<longrightarrow> cell r ''id'' \<noteq> VInt i)"
proof -
  have none: "find_table (opened_db env f) T = None" for T
    unfolding assms(5) by simp
  have cfg: "find_table (opened_db env f) ''config'' = None \<or> config_ok (opened_db env f)"
    using none by simp
  have emp: "opened_db env f = empty_database \<or> config_ok (opened_db env f)"
    using assms(5) by simp
  have rc: "fst (dc_sqlite3_open fp env (Some t) (Some f) flags) = 1"
    by (rule open_rw_succeeds [OF assms(1-4) emp])
  have first: "True = (find_table (opened_db env f) ''config'' = None)"
    using none by simp
  have v0: "(0::int) = (if True then 0 else stored_version (opened_db env f))"
    by simp
  from open_rw [OF assms(1-4) cfg rc first v0] obtain t' c' where
    o: "dc_sqlite3_open fp env (Some t) (Some f) flags = (1, Some t')" "m_cobj t' = Some c'"
    and tabs: "\<forall>T. name_key T \<noteq> ''config'' \<longrightarrow>
                 find_table (cn_db c') T
                   = opened_table fp True 0 T (find_table (opened_db env f) T)"
    by (elim exE conjE) (rule that)
  have t1: "find_table (cn_db c') ''contacts'' = tables_after ''contacts'' (open_submitted True 0) None"
    and t2: "find_table (cn_db c') ''chats'' = tables_after ''chats'' (open_submitted True 0) None"
    and t3: "find_table (cn_db c') ''msgs'' = tables_after ''msgs'' (open_submitted True 0) None"
    using tabs none by (simp_all add: opened_table_def)
  from fresh_contacts obtain contacts where
    c: "tables_after ''contacts'' (open_submitted True 0) None = Some contacts"
       "map (\<lambda>r. (cell r ''id'', cell r ''name'', cell r ''origin'')) (tb_rows contacts) =
         [(VInt 1, VText ''self'', VInt 262144), (VInt 2, VText ''device'', VInt 262144),
          (VInt 3, VText ''rsvd'', VInt 262144), (VInt 4, VText ''rsvd'', VInt 262144),
          (VInt 5, VText ''rsvd'', VInt 262144), (VInt 6, VText ''rsvd'', VInt 262144),
          (VInt 7, VText ''rsvd'', VInt 262144), (VInt 8, VText ''rsvd'', VInt 262144),
          (VInt 9, VText ''rsvd'', VInt 262144)]"
       "next_rowid (pk_col contacts) (tb_rows contacts) = 10" "pk_col contacts = Some ''id''"
    by (elim exE conjE) (rule that)
  from fresh_chats obtain chats where
    h: "tables_after ''chats'' (open_submitted True 0) None = Some chats"
       "map (\<lambda>r. cell r ''id'') (tb_rows chats) =
         [VInt 1, VInt 2, VInt 3, VInt 4, VInt 5, VInt 6, VInt 7, VInt 8, VInt 9]"
       "next_rowid (pk_col chats) (tb_rows chats) = 10" "pk_col chats = Some ''id''"
    by (elim exE conjE) (rule that)
  from fresh_msgs obtain msgs where
    m: "tables_after ''msgs'' (open_submitted True 0) None = Some msgs"
       "map (\<lambda>r. cell r ''id'') (tb_rows msgs) =
         [VInt 1, VInt 2, VInt 3, VInt 4, VInt 5, VInt 6, VInt 7, VInt 8, VInt 9]"
       "next_rowid (pk_col msgs) (tb_rows msgs) = 10" "pk_col msgs = Some ''id''"
    by (elim exE conjE) (rule that)
  note cr = contacts_reserved [OF c(2)]
  have guard: "\<forall>cs vs r i. i \<in> {1..9}
                  \<and> (make_row contacts cs vs = Some r \<or> make_row chats cs vs = Some r
                       \<or> make_row msgs cs vs = Some r)
                  \<longrightarrow> cell r ''id'' \<noteq> VInt i"
  proof (intro allI impI, elim conjE disjE)
    fix cs vs r and i :: int
    assume i: "i \<in> {1..9}"
    {
      assume "make_row contacts cs vs = Some r"
      from reserved_ids_guard [OF cr(1) c(4) this i] show "cell r ''id'' \<noteq> VInt i" .
    next
      assume "make_row chats cs vs = Some r"
      from reserved_ids_guard [OF ids_reserved [OF h(2)] h(4) this i]
      show "cell r ''id'' \<noteq> VInt i" .
    next
      assume "make_row msgs cs vs = Some r"
      from reserved_ids_guard [OF ids_reserved [OF m(2)] m(4) this i]
      show "cell r ''id'' \<noteq> VInt i" .
    }
  qed
  show ?thesis
    apply (rule exI [of _ t'])
    apply (rule exI [of _ c'])
    apply (rule exI [of _ contacts])
    apply (rule exI [of _ chats])
    apply (rule exI [of _ msgs])
    apply (intro conjI)
    apply (rule o(1))
    apply (rule o(2))
    apply (simp only: t1 c(1))
    apply (simp only: t2 h(1))
    apply (simp only: t3 m(1))
    apply (rule cr(1))
    apply (rule ids_reserved [OF h(2)])
    apply (rule ids_reserved [OF m(2)])
    apply (rule cr(2))
    apply (rule cr(3))
    apply (rule cr(4))
    apply (rule c(3))
    apply (rule h(3))
    apply (rule m(3))
    apply (rule guard)
    done
qed

theorem C6_reserved_rows_witness:
  "env_threadsafe fresh_env \<and> m_cobj (dc_sqlite3_new []) = None \<and> pd_ok (dc_sqlite3_new [])
   \<and> and 0 MR_OPEN_READONLY = 0 \<and> opened_db fresh_env ''/tmp/x.db'' = empty_database
   \<and> (\<exists>t' c' contacts chats msgs.
           dc_sqlite3_open fp_id fresh_env (Some (dc_sqlite3_new [])) (Some ''/tmp/x.db'') 0
             = (1, Some t')
           \<and> m_cobj t' = Some c'
           \<and> find_table (cn_db c') ''contacts'' = Some contacts
           \<and> find_table (cn_db c') ''chats'' = Some chats
           \<and> find_table (cn_db c') ''msgs'' = Some msgs
           \<and> reserved_ids contacts \<and> reserved_ids chats \<and> reserved_ids msgs
           \<and> (\<exists>r\<in>set (tb_rows contacts). cell r ''id'' = VInt 1 \<and> cell r ''name'' = VText ''self'')
           \<and> next_rowid (pk_col contacts) (tb_rows contacts) = 10
           \<and> next_rowid (pk_col chats) (tb_rows chats) = 10
           \<and> next_rowid (pk_col msgs) (tb_rows msgs) = 10)"
proof -
  from C6_reserved_rows [OF fresh_facts fresh_db(1), where f = "''/tmp/x.db''" and fp = fp_id]
  obtain t' c' contacts chats msgs where
    r: "dc_sqlite3_open fp_id fresh_env (Some (dc_sqlite3_new [])) (Some ''/tmp/x.db'') 0
             = (1, Some t')"
       "m_cobj t' = Some c'"
       "find_table (cn_db c') ''contacts'' = Some contacts"
       "find_table (cn_db c') ''chats'' = Some chats"
       "find_table (cn_db c') ''msgs'' = Some msgs"
       "reserved_ids contacts" "reserved_ids chats" "reserved_ids msgs"
       "\<exists>r\<in>set (tb_rows contacts). cell r ''id'' = VInt 1"
       "\<forall>r\<in>set (tb_rows contacts). cell r ''id'' = VInt 1 \<longrightarrow> cell r ''name'' = VText ''self''"
       "next_rowid (pk_col contacts) (tb_rows contacts) = 10"
       "next_rowid (pk_col chats) (tb_rows chats) = 10"
       "next_rowid (pk_col msgs) (tb_rows msgs) = 10"
    by (elim exE conjE) (rule that)
  from r(9,10) have self: "\<exists>r\<in>set (tb_rows contacts). cell r ''id'' = VInt 1 \<and> cell r ''name'' = VText ''self''"
    by blast
  have "\<exists>t' c' contacts chats msgs.
           dc_sqlite3_open fp_id fresh_env (Some (dc_sqlite3_new [])) (Some ''/tmp/x.db'') 0
             = (1, Some t')
           \<and> m_cobj t' = Some c'
           \<and> find_table (cn_db c') ''contacts'' = Some contacts
           \<and> find_table (cn_db c') ''chats'' = Some chats
           \<and> find_table (cn_db c') ''msgs'' = Some msgs
           \<and> reserved_ids contacts \<and> reserved_ids chats \<and> reserved_ids msgs
           \<and> (\<exists>r\<in>set (tb_rows contacts). cell r ''id'' = VInt 1 \<and> cell r ''name'' = VText ''self'')
           \<and> next_rowid (pk_col contacts) (tb_rows contacts) = 10
           \<and> next_rowid (pk_col chats) (tb_rows chats) = 10
           \<and> next_rowid (pk_col msgs) (tb_rows msgs) = 10"
    apply (rule exI [of _ t'])
    apply (rule exI [of _ c'])
    apply (rule exI [of _ contacts])
    apply (rule exI [of _ chats])
    apply (rule exI [of _ msgs])
    apply (intro conjI)
    apply (rule r(1))
    apply (rule r(2))
    apply (rule r(3))
    apply (rule r(4))
    apply (rule r(5))
    apply (rule r(6))
    apply (rule r(7))
    apply (rule r(8))
    apply (rule self)
    apply (rule r(11))
    apply (rule r(12))
    apply (rule r(13))
    done
  with fresh_facts fresh_db(1) [of "''/tmp/x.db''"] show ?thesis
    by (intro conjI)
qed

end
